theory Spec2Isabelle
  imports Main "HOL-Library.Monad_Syntax"
begin

section \<open>SlimeE: a shallow embedding of \<^verbatim>\<open>src/index.tsx\<close>\<close>

text \<open>
  The program is a single TypeScript module. Its pure helpers (\<^verbatim>\<open>escapeHtml\<close>,
  \<^verbatim>\<open>simpleMarkdownToHtml\<close>, \<^verbatim>\<open>extractCode\<close>) become HOL functions on strings; the
  module-level variables (\<^verbatim>\<open>state\<close>, \<^verbatim>\<open>isLoading\<close>, ...) become one record that every
  event handler takes and returns.

  A JavaScript string is modelled as a \<^typ>\<open>string\<close>: a list of code units below 256.
  Every pattern of the program is ASCII, so code units above 255 would only ever behave
  as "not a word character, not matched by a literal".
\<close>

subsection \<open>Strings and the regular expressions of the program\<close>

definition NL :: char where
  "NL = CHR 0x0A"

definition CR :: char where
  "CR = CHR 0x0D"

text \<open>\<^verbatim>\<open>String.prototype.trim\<close> removes white space and line terminators at both ends.\<close>

definition isWhiteSpace :: "char \<Rightarrow> bool" where
  "isWhiteSpace c = (let n = (of_char c :: nat) in (9 \<le> n \<and> n \<le> 13) \<or> n = 32 \<or> n = 160)"

definition trim :: "string \<Rightarrow> string" where
  "trim s = rev (dropWhile isWhiteSpace (rev (dropWhile isWhiteSpace s)))"

text \<open>The class \<^verbatim>\<open>\w\<close> is \<^verbatim>\<open>[A-Za-z0-9_]\<close>.\<close>

definition isWordChar :: "char \<Rightarrow> bool" where
  "isWordChar c = (let n = (of_char c :: nat) in
     (48 \<le> n \<and> n \<le> 57) \<or> (65 \<le> n \<and> n \<le> 90) \<or> n = 95 \<or> (97 \<le> n \<and> n \<le> 122))"

text \<open>
  \<^verbatim>\<open>toLowerCase\<close> on the ASCII range. The flag \<^verbatim>\<open>/i\<close> compares canonicalised
  characters; against an ASCII pattern character that is equality up to ASCII case.
\<close>

definition toLowerChar :: "char \<Rightarrow> char" where
  "toLowerChar c = (let n = (of_char c :: nat) in if 65 \<le> n \<and> n \<le> 90 then char_of (n + 32) else c)"

definition toLowerCase :: "string \<Rightarrow> string" where
  "toLowerCase s = map toLowerChar s"

definition startsWith :: "string \<Rightarrow> string \<Rightarrow> bool" where
  "startsWith s p = (take (length p) s = p)"

definition startsWithCI :: "string \<Rightarrow> string \<Rightarrow> bool" where
  "startsWithCI s p = (length p \<le> length s \<and> toLowerCase (take (length p) s) = toLowerCase p)"

text \<open>Index of the first occurrence of a literal, as a lazy quantifier followed by the
  literal finds it.\<close>

fun indexOf :: "string \<Rightarrow> string \<Rightarrow> nat option" where
  "indexOf p [] = (if p = [] then Some 0 else None)"
| "indexOf p (c # cs) =
     (if startsWith (c # cs) p then Some 0
      else (case indexOf p cs of None \<Rightarrow> None | Some k \<Rightarrow> Some (Suc k)))"

text \<open>\<^verbatim>\<open>String.prototype.includes\<close>.\<close>

definition includesStr :: "string \<Rightarrow> string \<Rightarrow> bool" where
  "includesStr s p = (indexOf p s \<noteq> None)"

text \<open>
  \<^verbatim>\<open>/^(p1|p2|...)/i\<close>: one of the alternatives is a prefix of the subject, up to case.
\<close>

definition testPrefixes :: "string list \<Rightarrow> string \<Rightarrow> bool" where
  "testPrefixes ps s = list_ex (startsWithCI s) ps"

text \<open>
  \<^verbatim>\<open>/\b(p1|p2|...)\b/i\<close>. \<open>wordAltAt ps prev s\<close> is a match starting at the head of
  \<open>s\<close>, where \<open>prev\<close> says whether the character before it is a word character
  (\<open>False\<close> at the start of the subject). \<^verbatim>\<open>\b\<close> holds between two positions
  exactly one of which is a word character.
\<close>

definition headIsWord :: "string \<Rightarrow> bool" where
  "headIsWord s = (case s of [] \<Rightarrow> False | c # _ \<Rightarrow> isWordChar c)"

definition lastIsWord :: "bool \<Rightarrow> string \<Rightarrow> bool" where
  "lastIsWord prev s = (if s = [] then prev else isWordChar (last s))"

definition wordAltAt :: "string list \<Rightarrow> bool \<Rightarrow> string \<Rightarrow> bool" where
  "wordAltAt ps prev s =
     (prev \<noteq> headIsWord s \<and>
      list_ex (\<lambda>p. startsWithCI s p \<and>
                   lastIsWord prev (take (length p) s) \<noteq> headIsWord (drop (length p) s)) ps)"

fun testWords :: "string list \<Rightarrow> bool \<Rightarrow> string \<Rightarrow> bool" where
  "testWords ps prev [] = wordAltAt ps prev []"
| "testWords ps prev (c # cs) = (wordAltAt ps prev (c # cs) \<or> testWords ps (isWordChar c) cs)"

subsection \<open>The query classifier (the pattern tests of \<^verbatim>\<open>handleSearch\<close>)\<close>

datatype Mode = Image | Video | Code | TextSearch

definition imageKeywords :: "string \<Rightarrow> bool" where
  "imageKeywords q =
     testPrefixes [''draw'', ''create'', ''generate'', ''make an image of'', ''show me a picture of''] q"

definition videoKeywords :: "string \<Rightarrow> bool" where
  "videoKeywords q =
     testWords [''video of'', ''animate'', ''generate a video'', ''create a video''] False q"

definition codeKeywords :: "string \<Rightarrow> bool" where
  "codeKeywords q =
     testWords [''code'', ''write'', ''html'', ''css'', ''javascript'', ''js'', ''function'',
                ''snippet'', ''app'', ''component''] False q"

definition classify :: "string \<Rightarrow> Mode" where
  "classify query =
     (if imageKeywords query then Image
      else if videoKeywords query then Video
      else if codeKeywords query then Code
      else TextSearch)"

subsection \<open>\<^verbatim>\<open>escapeHtml\<close>\<close>

definition replaceAllChar :: "char \<Rightarrow> string \<Rightarrow> string \<Rightarrow> string" where
  "replaceAllChar c r s = concat (map (\<lambda>x. if x = c then r else [x]) s)"

definition escapeHtml :: "string \<Rightarrow> string" where
  "escapeHtml unsafe =
     replaceAllChar (CHR 0x27) ''&#039;''
       (replaceAllChar (CHR 0x22) ''&quot;''
         (replaceAllChar CHR ''>'' ''&gt;''
           (replaceAllChar CHR ''<'' ''&lt;''
             (replaceAllChar CHR ''&'' ''&amp;'' unsafe))))"

subsection \<open>Fenced code blocks\<close>

definition fence :: string where
  "fence = [CHR 0x60, CHR 0x60, CHR 0x60]"

text \<open>
  A match of the fence pattern (three backquotes, \<^verbatim>\<open>(\w*)\<close>, a newline, a lazy
  \<^verbatim>\<open>([\s\S]*?)\<close>, three backquotes) at the head of the subject: the two groups and the
  length of the match. The greedy \<^verbatim>\<open>\w*\<close> takes the whole run of word characters (a
  shorter run would be followed by a word character, never by the newline); the lazy
  group stops at the first closing fence.
\<close>

definition fenceAt :: "string \<Rightarrow> (string \<times> string \<times> nat) option" where
  "fenceAt s =
     (if startsWith s fence then
        (let r = drop 3 s; lang = takeWhile isWordChar r in
         (case dropWhile isWordChar r of
            [] \<Rightarrow> None
          | c # body \<Rightarrow>
              if c = NL then
                (case indexOf fence body of
                   None \<Rightarrow> None
                 | Some k \<Rightarrow> Some (lang, take k body, 3 + length lang + 1 + k + 3))
              else None))
      else None)"

lemma fenceAt_pos: "fenceAt s = Some (lang, code, n) \<Longrightarrow> 0 < n"
  by (auto simp: fenceAt_def Let_def split: if_splits list.splits option.splits)

lemma fenceAt_Nil [simp]: "fenceAt [] = None"
  by (simp add: fenceAt_def startsWith_def fence_def)

text \<open>The successive matches of the global pattern, left to right, as the
  \<^verbatim>\<open>exec\<close> loop and \<^verbatim>\<open>replace\<close> meet them.\<close>

function codeBlocks :: "string \<Rightarrow> (string \<times> string) list" where
  "codeBlocks s =
     (case s of
        [] \<Rightarrow> []
      | c # cs \<Rightarrow>
          (case fenceAt s of
             Some (lang, code, n) \<Rightarrow> (lang, code) # codeBlocks (drop n s)
           | None \<Rightarrow> codeBlocks cs))"
  by pat_completeness auto
termination
  by (relation "measure length") (auto dest: fenceAt_pos)

declare codeBlocks.simps [simp del]

subsection \<open>\<^verbatim>\<open>extractCode\<close>\<close>

record CodeBundle =
  html :: string
  css :: string
  javascript :: string

text \<open>The body of the \<^verbatim>\<open>while\<close> loop: one match updates the accumulator and the flag.\<close>

definition extractStep :: "CodeBundle \<times> bool \<Rightarrow> string \<times> string \<Rightarrow> CodeBundle \<times> bool" where
  "extractStep acc m =
     (let extracted = fst acc; hasCode = snd acc;
          lang = toLowerCase (fst m); code = trim (snd m) in
      if lang = ''html'' then (extracted\<lparr>html := html extracted @ code @ [NL]\<rparr>, True)
      else if lang = ''css'' then (extracted\<lparr>css := css extracted @ code @ [NL]\<rparr>, True)
      else if lang = ''javascript'' \<or> lang = ''js''
        then (extracted\<lparr>javascript := javascript extracted @ code @ [NL]\<rparr>, True)
      else (extracted, hasCode))"

definition extractCode :: "string \<Rightarrow> CodeBundle option" where
  "extractCode markdown =
     (let r = foldl extractStep (\<lparr>html = [], css = [], javascript = []\<rparr>, False) (codeBlocks markdown)
      in if snd r then Some (fst r) else None)"

subsection \<open>\<^verbatim>\<open>simpleMarkdownToHtml\<close>\<close>

text \<open>First pass: every fenced block becomes an escaped \<^verbatim>\<open><pre><code>\<close> element.\<close>

definition preBlock :: "string \<Rightarrow> string \<Rightarrow> string" where
  "preBlock lang code =
     ''<pre><code class='' @ [CHR 0x22] @ ''language-'' @ lang @ [CHR 0x22] @ ''>'' @
     escapeHtml (trim code) @ ''</code></pre>''"

function replaceFences :: "string \<Rightarrow> string" where
  "replaceFences s =
     (case s of
        [] \<Rightarrow> []
      | c # cs \<Rightarrow>
          (case fenceAt s of
             Some (lang, code, n) \<Rightarrow> preBlock lang code @ replaceFences (drop n s)
           | None \<Rightarrow> c # replaceFences cs))"
  by pat_completeness auto
termination
  by (relation "measure length") (auto dest: fenceAt_pos)

declare replaceFences.simps [simp del]

text \<open>Second pass: \<^verbatim>\<open>/\*\*(.*?)\*\*/g\<close>; the dot matches no line terminator.\<close>

definition boldAt :: "string \<Rightarrow> (string \<times> nat) option" where
  "boldAt s =
     (if startsWith s ''**'' then
        (case indexOf ''**'' (drop 2 s) of
           None \<Rightarrow> None
         | Some k \<Rightarrow>
             if list_ex (\<lambda>c. c = NL \<or> c = CR) (take k (drop 2 s)) then None
             else Some (take k (drop 2 s), k + 4))
      else None)"

lemma boldAt_pos: "boldAt s = Some (b, n) \<Longrightarrow> 0 < n"
  by (auto simp: boldAt_def split: if_splits option.splits)

function replaceBold :: "string \<Rightarrow> string" where
  "replaceBold s =
     (case s of
        [] \<Rightarrow> []
      | c # cs \<Rightarrow>
          (case boldAt s of
             Some (b, n) \<Rightarrow> ''<strong>'' @ b @ ''</strong>'' @ replaceBold (drop n s)
           | None \<Rightarrow> c # replaceBold cs))"
  by pat_completeness auto
termination
  by (relation "measure length") (auto dest: boldAt_pos)

declare replaceBold.simps [simp del]

text \<open>\<^verbatim>\<open>split(/(<pre>[\s\S]*?<\/pre>)/)\<close>: the text between the matches and, because of the
  capture group, the matches themselves.\<close>

definition preAt :: "string \<Rightarrow> nat option" where
  "preAt s =
     (if startsWith s ''<pre>'' then
        (case indexOf ''</pre>'' (drop 5 s) of None \<Rightarrow> None | Some k \<Rightarrow> Some (5 + k + 6))
      else None)"

lemma preAt_pos: "preAt s = Some n \<Longrightarrow> 0 < n"
  by (auto simp: preAt_def split: if_splits option.splits)

function splitPre :: "string \<Rightarrow> string \<Rightarrow> string list" where
  "splitPre acc s =
     (case s of
        [] \<Rightarrow> [acc]
      | c # cs \<Rightarrow>
          (case preAt s of
             Some n \<Rightarrow> acc # take n s # splitPre [] (drop n s)
           | None \<Rightarrow> splitPre (acc @ [c]) cs))"
  by pat_completeness auto
termination
  by (relation "measure (\<lambda>(acc, s). length s)") (auto dest: preAt_pos)

declare splitPre.simps [simp del]

text \<open>\<^verbatim>\<open>part.split('\n')\<close>.\<close>

fun splitLines :: "string \<Rightarrow> string list" where
  "splitLines [] = [[]]"
| "splitLines (c # cs) =
     (if c = NL then [] # splitLines cs
      else (case splitLines cs of [] \<Rightarrow> [[c]] | l # ls \<Rightarrow> (c # l) # ls))"

text \<open>The inner loop over the lines of one part, with its two variables.\<close>

definition isListLine :: "string \<Rightarrow> bool" where
  "isListLine line = startsWith (trim line) ''* ''"

fun linesLoop :: "string list \<Rightarrow> bool \<times> string \<Rightarrow> bool \<times> string" where
  "linesLoop [] st = st"
| "linesLoop (line # rest) (inList, sectionHtml) =
     (if isListLine line then
        linesLoop rest
          (True, (if \<not> inList then sectionHtml @ ''<ul>'' else sectionHtml) @
                 ''<li>'' @ drop 2 (trim line) @ ''</li>'')
      else
        linesLoop rest
          (False, (if inList then sectionHtml @ ''</ul>'' else sectionHtml) @
                  ''<p>'' @ line @ ''</p>''))"

definition renderSection :: "string \<Rightarrow> string" where
  "renderSection part =
     (let lines = filter (\<lambda>line. trim line \<noteq> []) (splitLines part);
          r = linesLoop lines (False, [])
      in if fst r then snd r @ ''</ul>'' else snd r)"

definition simpleMarkdownToHtml :: "string \<Rightarrow> string" where
  "simpleMarkdownToHtml markdown =
     concat (map (\<lambda>part. if startsWith part ''<pre>'' then part else renderSection part)
                 (splitPre [] (replaceBold (replaceFences markdown))))"

subsection \<open>The data model\<close>

text \<open>
  A value of type \<^verbatim>\<open>any\<close> that came from the service, and the text that
  \<^verbatim>\<open>JSON.stringify\<close> writes: a tree. The text itself is not modelled; reading it back
  with \<^verbatim>\<open>JSON.parse\<close> gives the tree again, with new objects.
\<close>

datatype json =
    JNull
  | JBool bool
  | JNum int
  | JStr string
  | JArr "json list"
  | JObj "(string \<times> json) list"

datatype Role = User | Model

text \<open>The field names \<open>text\<close>, \<open>image\<close> and \<open>id\<close> are taken in Isabelle; they carry a
  prime here, as does \<open>done\<close> further down.\<close>

record Message =
  role :: Role
  text' :: string
  image' :: "string option"
  video :: "string option"
  sources :: "json list option"
  code :: "CodeBundle option"

text \<open>
  Message objects are shared: \<^verbatim>\<open>handleSearch\<close> pushes the pending model message onto a
  history and hands the same object to a generation handler, which writes to it while
  other event handlers run. So messages live in a store, a history holds references
  (indices into the store), and a new object is allocated at the end of the store.
\<close>

type_synonym ref = nat

record Chat =
  id' :: nat
  title :: string
  history :: "ref list"

record AppState =
  isAuthenticated :: bool
  chats :: "Chat list"
  activeChatId :: "nat option"
  nextChatId :: nat

text \<open>
  A thrown value is any value: \<open>JNull\<close> stands for a thrown \<^verbatim>\<open>null\<close> or \<^verbatim>\<open>undefined\<close>, an
  object for an \<^verbatim>\<open>Error\<close> with its \<^verbatim>\<open>message\<close> property. \<open>newError msg\<close> is what
  \<^verbatim>\<open>new Error(msg)\<close> makes, and \<open>typeError\<close> the \<^verbatim>\<open>TypeError\<close> of a property read on
  \<^verbatim>\<open>null\<close> or \<^verbatim>\<open>undefined\<close> or of a call of something that is no function.
\<close>

type_synonym thrown = json

definition newError :: "string \<Rightarrow> thrown" where
  "newError msg = JObj [(''message'', JStr msg)]"

definition typeError :: thrown where
  "typeError = newError ''TypeError''"

text \<open>An activation of \<^verbatim>\<open>handleSearch\<close> suspended at the \<^verbatim>\<open>await\<close> of its handler: the
  variables it still refers to.\<close>

record Activation =
  query :: string
  modelMessage :: ref

text \<open>
  The module's variables, the storage item \<^verbatim>\<open>slimeeState\<close>, the value of the search
  box, and the suspended activations. Ids are JavaScript numbers; the counter starts at 1
  and only ever grows by one, which is exact below \<open>2 ^ 53\<close>, and they are modelled as
  unbounded naturals.
\<close>

record World =
  state :: AppState
  isLoading :: bool
  activeArtifactMessageIndex :: "nat option"
  store :: "Message list"
  localStorage :: "json option"
  searchInput :: string
  inflight :: "Activation list"

definition initialState :: AppState where
  "initialState = \<lparr>isAuthenticated = False, chats = [], activeChatId = None, nextChatId = 1\<rparr>"

definition initialWorld :: "json option \<Rightarrow> World" where
  "initialWorld saved =
     \<lparr>state = initialState, isLoading = False, activeArtifactMessageIndex = None,
      store = [], localStorage = saved, searchInput = [], inflight = []\<rparr>"

definition newMessage :: "Role \<Rightarrow> string \<Rightarrow> Message" where
  "newMessage r t =
     \<lparr>role = r, text' = t, image' = None, video = None, sources = None, code = None\<rparr>"

subsection \<open>State persistence\<close>

text \<open>\<^verbatim>\<open>JSON.stringify\<close> writes the own properties of an object in creation order and
  leaves out a property whose value is \<^verbatim>\<open>undefined\<close>.\<close>

definition optField :: "string \<Rightarrow> ('a \<Rightarrow> json) \<Rightarrow> 'a option \<Rightarrow> (string \<times> json) list" where
  "optField k f v = (case v of None \<Rightarrow> [] | Some x \<Rightarrow> [(k, f x)])"

definition encodeCode :: "CodeBundle \<Rightarrow> json" where
  "encodeCode c =
     JObj [(''html'', JStr (html c)), (''css'', JStr (css c)), (''javascript'', JStr (javascript c))]"

definition encodeRole :: "Role \<Rightarrow> json" where
  "encodeRole r = JStr (case r of User \<Rightarrow> ''user'' | Model \<Rightarrow> ''model'')"

definition encodeMessage :: "Message \<Rightarrow> json" where
  "encodeMessage m =
     JObj ([(''role'', encodeRole (role m)), (''text'', JStr (text' m))] @
           optField ''image'' JStr (image' m) @
           optField ''video'' JStr (video m) @
           optField ''sources'' JArr (sources m) @
           optField ''code'' encodeCode (code m))"

definition encodeChat :: "Message list \<Rightarrow> Chat \<Rightarrow> json" where
  "encodeChat h c =
     JObj [(''id'', JNum (int (id' c))), (''title'', JStr (title c)),
           (''history'', JArr (map (\<lambda>r. encodeMessage (h ! r)) (history c)))]"

definition encodeState :: "Message list \<Rightarrow> AppState \<Rightarrow> json" where
  "encodeState h s =
     JObj [(''isAuthenticated'', JBool (isAuthenticated s)),
           (''chats'', JArr (map (encodeChat h) (chats s))),
           (''activeChatId'', (case activeChatId s of None \<Rightarrow> JNull | Some n \<Rightarrow> JNum (int n))),
           (''nextChatId'', JNum (int (nextChatId s)))]"

definition saveState :: "World \<Rightarrow> World" where
  "saveState w = w\<lparr>localStorage := Some (encodeState (store w) (state w))\<rparr>"

text \<open>
  \<^verbatim>\<open>state = JSON.parse(savedState)\<close> casts the parsed value to \<^verbatim>\<open>AppState\<close> unchecked.
  The readers below are the property reads the program later makes on it; they give
  \<open>None\<close> on a tree that is not of the type, which is outside this model.
\<close>

fun field :: "string \<Rightarrow> json \<Rightarrow> json option" where
  "field k (JObj kvs) = map_of kvs k"
| "field k _ = None"

fun asStr :: "json \<Rightarrow> string option" where
  "asStr (JStr s) = Some s"
| "asStr _ = None"

fun asNat :: "json \<Rightarrow> nat option" where
  "asNat (JNum i) = (if 0 \<le> i then Some (nat i) else None)"
| "asNat _ = None"

fun asBool :: "json \<Rightarrow> bool option" where
  "asBool (JBool b) = Some b"
| "asBool _ = None"

fun asArr :: "json \<Rightarrow> json list option" where
  "asArr (JArr xs) = Some xs"
| "asArr _ = None"

definition optional :: "string \<Rightarrow> (json \<Rightarrow> 'a option) \<Rightarrow> json \<Rightarrow> 'a option option" where
  "optional k f j = (case field k j of None \<Rightarrow> Some None | Some v \<Rightarrow> map_option Some (f v))"

definition required :: "string \<Rightarrow> (json \<Rightarrow> 'a option) \<Rightarrow> json \<Rightarrow> 'a option" where
  "required k f j = Option.bind (field k j) f"

fun traverse :: "('a \<Rightarrow> 'b option) \<Rightarrow> 'a list \<Rightarrow> 'b list option" where
  "traverse f [] = Some []"
| "traverse f (x # xs) =
     (case f x of None \<Rightarrow> None
      | Some y \<Rightarrow> (case traverse f xs of None \<Rightarrow> None | Some ys \<Rightarrow> Some (y # ys)))"

definition decodeRole :: "json \<Rightarrow> Role option" where
  "decodeRole j =
     (case asStr j of
        None \<Rightarrow> None
      | Some s \<Rightarrow> if s = ''user'' then Some User else if s = ''model'' then Some Model else None)"

definition decodeCode :: "json \<Rightarrow> CodeBundle option" where
  "decodeCode j = do {
     h \<leftarrow> required ''html'' asStr j;
     c \<leftarrow> required ''css'' asStr j;
     s \<leftarrow> required ''javascript'' asStr j;
     Some \<lparr>html = h, css = c, javascript = s\<rparr>
   }"

definition decodeMessage :: "json \<Rightarrow> Message option" where
  "decodeMessage j = do {
     r \<leftarrow> required ''role'' decodeRole j;
     t \<leftarrow> required ''text'' asStr j;
     i \<leftarrow> optional ''image'' asStr j;
     v \<leftarrow> optional ''video'' asStr j;
     s \<leftarrow> optional ''sources'' asArr j;
     c \<leftarrow> optional ''code'' decodeCode j;
     Some \<lparr>role = r, text' = t, image' = i, video = v, sources = s, code = c\<rparr>
   }"

text \<open>Parsing makes new message objects: they are appended to the store.\<close>

definition decodeChat :: "Message list \<Rightarrow> json \<Rightarrow> (Chat \<times> Message list) option" where
  "decodeChat h j = do {
     i \<leftarrow> required ''id'' asNat j;
     t \<leftarrow> required ''title'' asStr j;
     js \<leftarrow> required ''history'' asArr j;
     ms \<leftarrow> traverse decodeMessage js;
     Some (\<lparr>id' = i, title = t, history = [length h ..< length h + length ms]\<rparr>, h @ ms)
   }"

fun decodeChats :: "Message list \<Rightarrow> json list \<Rightarrow> (Chat list \<times> Message list) option" where
  "decodeChats h [] = Some ([], h)"
| "decodeChats h (j # js) =
     (case decodeChat h j of
        None \<Rightarrow> None
      | Some (c, h') \<Rightarrow>
          (case decodeChats h' js of None \<Rightarrow> None | Some (cs, h'') \<Rightarrow> Some (c # cs, h'')))"

definition decodeActive :: "json \<Rightarrow> nat option option" where
  "decodeActive j = (if j = JNull then Some None else map_option Some (asNat j))"

definition decodeState :: "Message list \<Rightarrow> json \<Rightarrow> (AppState \<times> Message list) option" where
  "decodeState h j = do {
     a \<leftarrow> required ''isAuthenticated'' asBool j;
     js \<leftarrow> required ''chats'' asArr j;
     r \<leftarrow> decodeChats h js;
     act \<leftarrow> required ''activeChatId'' decodeActive j;
     n \<leftarrow> required ''nextChatId'' asNat j;
     Some (\<lparr>isAuthenticated = a, chats = fst r, activeChatId = act, nextChatId = n\<rparr>, snd r)
   }"

definition loadState :: "World \<Rightarrow> World option" where
  "loadState w =
     (case localStorage w of
        None \<Rightarrow> Some w
      | Some savedState \<Rightarrow>
          (case decodeState (store w) savedState of
             None \<Rightarrow> None
           | Some (s, h) \<Rightarrow> Some (w\<lparr>state := s, store := h\<rparr>)))"

text \<open>What a session holds, by value: each chat with its messages read from the store.\<close>

definition chatValue :: "Message list \<Rightarrow> Chat \<Rightarrow> nat \<times> string \<times> Message list" where
  "chatValue h c = (id' c, title c, map (\<lambda>r. h ! r) (history c))"

definition chatList :: "World \<Rightarrow> (nat \<times> string \<times> Message list) list" where
  "chatList w = map (chatValue (store w)) (chats (state w))"

subsection \<open>Event handlers on the session\<close>

text \<open>
  Rendering reads the state and writes the page; what it writes is left out, but it can
  throw. \<^verbatim>\<open>renderChatHistory\<close> makes a bubble for every message of the active chat, and
  \<^verbatim>\<open>createModelMessageBubble\<close> reads \<^verbatim>\<open>chunk.web\<close> of every source of a model message:
  on a source that is \<^verbatim>\<open>null\<close> that read throws a \<^verbatim>\<open>TypeError\<close>. On any other value
  it gives a property or \<^verbatim>\<open>undefined\<close>.
\<close>

definition bubbleThrows :: "Message \<Rightarrow> bool" where
  "bubbleThrows m =
     (role m = Model \<and> (case sources m of None \<Rightarrow> False | Some chunks \<Rightarrow> JNull \<in> set chunks))"

definition renderChatHistory_throws :: "World \<Rightarrow> bool" where
  "renderChatHistory_throws w =
     (case find (\<lambda>c. Some (id' c) = activeChatId (state w)) (chats (state w)) of
        None \<Rightarrow> False
      | Some activeChat \<Rightarrow> list_ex (\<lambda>r. bubbleThrows (store w ! r)) (history activeChat))"

text \<open>
  The handlers of this section render last, after their last write to the state and
  after \<^verbatim>\<open>saveState\<close>, so a throw from a render call leaves the world as they return
  it here. What \<^verbatim>\<open>closeArtifactPane\<close> changes is the artifact index and the stored
  snapshot.
\<close>

definition closeArtifactPane :: "World \<Rightarrow> World" where
  "closeArtifactPane w = saveState (w\<lparr>activeArtifactMessageIndex := None\<rparr>)"

definition handleArtifactView :: "nat \<Rightarrow> World \<Rightarrow> World" where
  "handleArtifactView index w = w\<lparr>activeArtifactMessageIndex := Some index\<rparr>"

definition digitChar :: "nat \<Rightarrow> char" where
  "digitChar d = char_of (48 + d)"

function showNat :: "nat \<Rightarrow> string" where
  "showNat n = (if n < 10 then [digitChar n] else showNat (n div 10) @ [digitChar (n mod 10)])"
  by pat_completeness auto
termination
  by (relation "measure id") auto

declare showNat.simps [simp del]

definition handleNewChat :: "World \<Rightarrow> World" where
  "handleNewChat w =
     (let s = state w;
          newChat = \<lparr>id' = nextChatId s, title = ''Chat '' @ showNat (nextChatId s), history = []\<rparr>;
          s1 = s\<lparr>nextChatId := nextChatId s + 1\<rparr>;
          s2 = s1\<lparr>chats := chats s1 @ [newChat]\<rparr>;
          s3 = s2\<lparr>activeChatId := Some (id' newChat)\<rparr>
      in closeArtifactPane (w\<lparr>state := s3\<rparr>))"

definition handleTabSwitch :: "nat \<Rightarrow> World \<Rightarrow> World" where
  "handleTabSwitch chatId w =
     (if Some chatId = activeChatId (state w) then w
      else closeArtifactPane (w\<lparr>state := (state w)\<lparr>activeChatId := Some chatId\<rparr>\<rparr>))"

definition handleAuthClick :: "World \<Rightarrow> World" where
  "handleAuthClick w =
     saveState
       (if isAuthenticated (state w) then
          closeArtifactPane
            (w\<lparr>state := \<lparr>isAuthenticated = False, chats = [], activeChatId = None, nextChatId = 1\<rparr>\<rparr>)
        else
          (let w1 = w\<lparr>state := (state w)\<lparr>isAuthenticated := True\<rparr>\<rparr>
           in if length (chats (state w1)) = 0 then handleNewChat w1 else w1))"

subsection \<open>Generation handlers\<close>

text \<open>
  A handler is an \<^verbatim>\<open>async\<close> function that writes to the message it was handed. Its model
  takes what the service answers and the message, and gives the message as the handler
  leaves it together with the value it threw, if any (\<open>None\<close>: the promise resolved).
  Writes to the page are left out.
\<close>

type_synonym settled = "thrown option \<times> Message"

text \<open>\<^verbatim>\<open>handleImageGeneration\<close>. The response is the rejection of \<^verbatim>\<open>generateContent\<close> or its
  candidates, each the list of its parts, each part its \<^verbatim>\<open>inlineData.data\<close> if it has
  inline data.\<close>

definition handleImageGeneration ::
    "thrown + string option list list \<Rightarrow> string \<Rightarrow> Message \<Rightarrow> settled" where
  "handleImageGeneration response q m =
     (case response of
        Inl e \<Rightarrow> (Some e, m)
      | Inr candidates \<Rightarrow>
          (case candidates of
             [] \<Rightarrow> (Some typeError, m)
           | parts # _ \<Rightarrow>
               (let base64ImageBytes =
                      (case find (\<lambda>part. part \<noteq> None) parts of Some (Some d) \<Rightarrow> d | _ \<Rightarrow> [])
                in if base64ImageBytes \<noteq> [] then
                     (None, m\<lparr>image' := Some (''data:image/png;base64,'' @ base64ImageBytes),
                               text' := ''Here is the image you requested for: '' @ [CHR 0x22] @ q @ [CHR 0x22]\<rparr>)
                   else
                     (None, m\<lparr>text' := ''Sorry, I couldn'' @ [CHR 0x27] @ ''t create that image.''\<rparr>))))"

text \<open>The increments of a stream: those that arrive, then its failure if it has one (a
  rejection of \<^verbatim>\<open>generateContentStream\<close> itself is a stream that fails at once).\<close>

record GroundingMetadata =
  groundingChunks :: "json list option"

record Candidate =
  groundingMetadata :: "GroundingMetadata option"

record Chunk =
  chunkText :: "string option"
  candidates :: "Candidate list option"

record ContentStream =
  increments :: "Chunk list"
  failure :: "thrown option"

text \<open>\<^verbatim>\<open>if (chunkText) fullText += chunkText\<close>: an absent or empty text adds nothing.\<close>

definition appendText :: "string \<Rightarrow> Chunk \<Rightarrow> string" where
  "appendText fullText chunk =
     (case chunkText chunk of None \<Rightarrow> fullText | Some t \<Rightarrow> if t \<noteq> [] then fullText @ t else fullText)"

text \<open>\<^verbatim>\<open>chunk.candidates?.[0]?.groundingMetadata\<close> followed by \<^verbatim>\<open>?.groundingChunks\<close>.\<close>

definition groundingOf :: "Chunk \<Rightarrow> json list option" where
  "groundingOf chunk =
     (case candidates chunk of
        None \<Rightarrow> None
      | Some [] \<Rightarrow> None
      | Some (c # _) \<Rightarrow>
          (case groundingMetadata c of None \<Rightarrow> None | Some g \<Rightarrow> groundingChunks g))"

text \<open>One turn of the loop of \<^verbatim>\<open>handleTextSearch\<close>.\<close>

definition textStep :: "string \<times> Message \<Rightarrow> Chunk \<Rightarrow> string \<times> Message" where
  "textStep st chunk =
     (appendText (fst st) chunk,
      (case groundingOf chunk of
         None \<Rightarrow> snd st
       | Some gs \<Rightarrow> if length gs > 0 then (snd st)\<lparr>sources := Some gs\<rparr> else snd st))"

definition handleTextSearch :: "ContentStream \<Rightarrow> Message \<Rightarrow> settled" where
  "handleTextSearch stream m =
     (let r = foldl textStep ([], m) (increments stream)
      in case failure stream of
           Some e \<Rightarrow> (Some e, snd r)
         | None \<Rightarrow> (None, (snd r)\<lparr>text' := fst r\<rparr>))"

definition handleCodeGeneration :: "ContentStream \<Rightarrow> Message \<Rightarrow> settled" where
  "handleCodeGeneration stream m =
     (let fullText = foldl appendText [] (increments stream)
      in case failure stream of
           Some e \<Rightarrow> (Some e, m)
         | None \<Rightarrow> (None, m\<lparr>text' := fullText, code := extractCode fullText\<rparr>))"

subsection \<open>The video handler\<close>

record Operation =
  done' :: bool
  uri :: "string option"

record Response =
  ok :: bool
  statusText :: string

text \<open>What the outside answers during one pass through the \<^verbatim>\<open>try\<close> block. The polls are
  the successive answers of \<^verbatim>\<open>getVideosOperation\<close>; when they run out before one is
  done, the loop never ends.\<close>

record Attempt =
  hasSelectedApiKey :: "thrown + bool"
  openSelectKey :: "thrown option"
  generateVideos :: "thrown + Operation"
  getVideosOperation :: "(thrown + Operation) list"
  fetch :: "thrown + Response"
  blobUrl :: "thrown + string"

fun pollLoop :: "(thrown + Operation) list \<Rightarrow> Operation \<Rightarrow> (thrown + Operation) option" where
  "pollLoop [] operation = (if done' operation then Some (Inr operation) else None)"
| "pollLoop (p # ps) operation =
     (if done' operation then Some (Inr operation)
      else (case p of Inl e \<Rightarrow> Some (Inl e) | Inr operation' \<Rightarrow> pollLoop ps operation'))"

definition keyCheck :: "Attempt \<Rightarrow> bool \<Rightarrow> thrown option" where
  "keyCheck a isRetry =
     (if \<not> isRetry then
        (case hasSelectedApiKey a of
           Inl e \<Rightarrow> Some e
         | Inr hasKey \<Rightarrow> if \<not> hasKey then openSelectKey a else None)
      else None)"

definition download :: "Attempt \<Rightarrow> Operation \<Rightarrow> thrown + string" where
  "download a operation =
     (if uri operation = None \<or> uri operation = Some [] then
        Inl (newError ''No download link provided.'')
      else
        (case fetch a of
           Inl e \<Rightarrow> Inl e
         | Inr videoResponse \<Rightarrow>
             if \<not> ok videoResponse then
               Inl (newError (''Failed to download video: '' @ statusText videoResponse))
             else blobUrl a))"

text \<open>The \<^verbatim>\<open>try\<close> block: the object URL of the video, or what was thrown; \<open>None\<close> when
  the polling never ends.\<close>

definition videoTry :: "Attempt \<Rightarrow> bool \<Rightarrow> (thrown + string) option" where
  "videoTry a isRetry =
     (case keyCheck a isRetry of
        Some e \<Rightarrow> Some (Inl e)
      | None \<Rightarrow>
          (case generateVideos a of
             Inl e \<Rightarrow> Some (Inl e)
           | Inr operation \<Rightarrow>
               (case pollLoop (getVideosOperation a) operation of
                  None \<Rightarrow> None
                | Some (Inl e) \<Rightarrow> Some (Inl e)
                | Some (Inr operation') \<Rightarrow> Some (download a operation'))))"

text \<open>
  The environment of a whole run: the answers during the first pass and during the
  retry, and the outcome of the key selection reopened in the \<^verbatim>\<open>catch\<close> block. The
  handler's result carries a log of the passes it started and of that reopening.
\<close>

record VideoEnv =
  attempt :: "bool \<Rightarrow> Attempt"
  reopenSelectKey :: "thrown option"

datatype VideoLog = Pass bool | Reopen

text \<open>
  The test of the \<^verbatim>\<open>catch\<close> block, \<^verbatim>\<open>error.message?.includes(...)\<close>: its truth value, or
  what it throws. Reading \<^verbatim>\<open>message\<close> of \<^verbatim>\<open>null\<close> or \<^verbatim>\<open>undefined\<close> throws; any other
  value without the property gives \<^verbatim>\<open>undefined\<close>, where \<^verbatim>\<open>?.\<close> stops. A string is
  searched, an array is asked for an element equal to the text, and any other message
  has no \<^verbatim>\<open>includes\<close> to call.
\<close>

definition credentialSignature :: string where
  "credentialSignature = ''Requested entity was not found''"

definition credentialInvalid :: "thrown \<Rightarrow> thrown + bool" where
  "credentialInvalid error =
     (case error of
        JNull \<Rightarrow> Inl typeError
      | JObj kvs \<Rightarrow>
          (case map_of kvs ''message'' of
             None \<Rightarrow> Inr False
           | Some JNull \<Rightarrow> Inr False
           | Some (JStr msg) \<Rightarrow> Inr (includesStr msg credentialSignature)
           | Some (JArr xs) \<Rightarrow> Inr (JStr credentialSignature \<in> set xs)
           | Some _ \<Rightarrow> Inl typeError)
      | _ \<Rightarrow> Inr False)"

definition failedAgainText :: string where
  "failedAgainText =
     ''Video generation failed again. Please ensure your selected key is valid and has billing enabled.''"

definition videoFailedText :: string where
  "videoFailedText = ''Sorry, I couldn'' @ [CHR 0x27] @ ''t create that video.''"

definition videoDoneText :: string where
  "videoDoneText = ''Here is the video you requested.''"

function handleVideoGeneration ::
    "VideoEnv \<Rightarrow> Message \<Rightarrow> bool \<Rightarrow> (settled \<times> VideoLog list) option" where
  "handleVideoGeneration env m isRetry =
     (case videoTry (attempt env isRetry) isRetry of
        None \<Rightarrow> None
      | Some (Inr url) \<Rightarrow>
          Some ((None, m\<lparr>video := Some url, text' := videoDoneText\<rparr>), [Pass isRetry])
      | Some (Inl error) \<Rightarrow>
          (case credentialInvalid error of
             Inl e \<Rightarrow> Some ((Some e, m), [Pass isRetry])
           | Inr True \<Rightarrow>
               (if isRetry then Some ((None, m\<lparr>text' := failedAgainText\<rparr>), [Pass isRetry])
                else
                  (case reopenSelectKey env of
                     Some e \<Rightarrow> Some ((Some e, m), [Pass isRetry, Reopen])
                   | None \<Rightarrow>
                       (case handleVideoGeneration env m True of
                          None \<Rightarrow> None
                        | Some (r, log) \<Rightarrow> Some (r, [Pass isRetry, Reopen] @ log))))
           | Inr False \<Rightarrow> Some ((None, m\<lparr>text' := videoFailedText\<rparr>), [Pass isRetry])))"
  by pat_completeness auto
termination
  by (relation "measure (\<lambda>(env, m, isRetry). if isRetry then 0 else 1)") auto

declare handleVideoGeneration.simps [simp del]

subsection \<open>\<^verbatim>\<open>handleSearch\<close>\<close>

text \<open>
  \<^verbatim>\<open>handleSearch\<close> runs in two stretches. \<open>handleSearch_begin\<close> is the stretch up to the
  \<^verbatim>\<open>await\<close> of the handler: the guard, the push of the user message, the first save and
  render, the push of the model message. It ends in one of three ways: the guard
  returned; a \<^verbatim>\<open>TypeError\<close> was thrown before the \<^verbatim>\<open>try\<close>, with the flag up (\<^verbatim>\<open>activeChat\<close>
  was undefined and reading its history threw, or the render after the first save
  threw); or the activation is suspended on its handler. \<open>handleSearch_finish\<close> is the
  stretch after the handler has settled: the \<^verbatim>\<open>catch\<close> and the \<^verbatim>\<open>finally\<close> blocks, where
  a throw of the render skips the last save and leaves the function.
\<close>

datatype Begun = Dropped | Failed thrown | Awaiting Activation

definition apologyText :: string where
  "apologyText = ''Sorry, an error occurred. Please try again.''"

text \<open>\<^verbatim>\<open>activeChat.history.push(r)\<close> on the chat that \<^verbatim>\<open>find\<close> returned: the first with
  the id.\<close>

fun pushHistory :: "nat \<Rightarrow> ref \<Rightarrow> Chat list \<Rightarrow> Chat list" where
  "pushHistory i r [] = []"
| "pushHistory i r (c # cs) =
     (if id' c = i then c\<lparr>history := history c @ [r]\<rparr> # cs else c # pushHistory i r cs)"

definition handleSearch_begin :: "World \<Rightarrow> Begun \<times> World" where
  "handleSearch_begin w =
     (let q = trim (searchInput w) in
      if q = [] \<or> isLoading w \<or> activeChatId (state w) = None \<or> activeChatId (state w) = Some 0
      then (Dropped, w)
      else
        (let w1 = w\<lparr>isLoading := True\<rparr>; i = the (activeChatId (state w)) in
         case find (\<lambda>c. id' c = i) (chats (state w1)) of
           None \<Rightarrow> (Failed typeError, w1)
         | Some _ \<Rightarrow>
             (let userRef = length (store w1);
                  w2 = w1\<lparr>store := store w1 @ [newMessage User q],
                          state := (state w1)\<lparr>chats := pushHistory i userRef (chats (state w1))\<rparr>\<rparr>;
                  w3 = saveState w2
              in if renderChatHistory_throws w3 then (Failed typeError, w3)
                 else
                   (let w4 = w3\<lparr>searchInput := []\<rparr>;
                        modelRef = length (store w4);
                        w5 = w4\<lparr>store := store w4 @ [newMessage Model []],
                                state := (state w4)\<lparr>chats := pushHistory i modelRef (chats (state w4))\<rparr>\<rparr>;
                        a = \<lparr>query = q, modelMessage = modelRef\<rparr>
                    in (Awaiting a, w5\<lparr>inflight := inflight w5 @ [a]\<rparr>)))))"

text \<open>A handler writes to the message it was handed.\<close>

definition handlerWrite :: "ref \<Rightarrow> Message \<Rightarrow> World \<Rightarrow> World" where
  "handlerWrite r m w = w\<lparr>store := (store w)[r := m]\<rparr>"

text \<open>The \<^verbatim>\<open>catch\<close> and \<^verbatim>\<open>finally\<close> blocks of the activation \<open>a\<close>, once its handler has
  settled with \<open>outcome\<close>: what leaves the function, and the world.\<close>

definition handleSearch_finish :: "Activation \<Rightarrow> thrown option \<Rightarrow> World \<Rightarrow> thrown option \<times> World" where
  "handleSearch_finish a outcome w =
     (let r = modelMessage a;
          w1 = (case outcome of
                  None \<Rightarrow> w
                | Some error \<Rightarrow> w\<lparr>store := (store w)[r := (store w ! r)\<lparr>text' := apologyText\<rparr>]\<rparr>);
          w2 = w1\<lparr>isLoading := False\<rparr>;
          w3 = w2\<lparr>inflight := remove1 a (inflight w2)\<rparr>
      in if renderChatHistory_throws w3 then (Some typeError, w3) else (None, saveState w3))"

text \<open>What the service answers to one query, whichever handler asks.\<close>

record Env =
  imageResponse :: "thrown + string option list list"
  videoEnv :: VideoEnv
  codeStream :: ContentStream
  searchStream :: ContentStream

text \<open>The \<^verbatim>\<open>if\<close> chain in the \<^verbatim>\<open>try\<close> block, which tests the three patterns in the
  order of \<open>classify\<close>; \<open>None\<close> when the handler never settles.\<close>

definition dispatch :: "Env \<Rightarrow> string \<Rightarrow> Message \<Rightarrow> settled option" where
  "dispatch env q m =
     (case classify q of
        Image \<Rightarrow> Some (handleImageGeneration (imageResponse env) q m)
      | Video \<Rightarrow> map_option fst (handleVideoGeneration (videoEnv env) m False)
      | Code \<Rightarrow> Some (handleCodeGeneration (codeStream env) m)
      | TextSearch \<Rightarrow> Some (handleTextSearch (searchStream env) m))"

text \<open>
  A whole call with nothing else running in between: what it throws to its caller, if
  anything, and the world it leaves; \<open>None\<close> when it never returns.
\<close>

definition handleSearch :: "Env \<Rightarrow> World \<Rightarrow> (thrown option \<times> World) option" where
  "handleSearch env w =
     (case handleSearch_begin w of
        (Dropped, w1) \<Rightarrow> Some (None, w1)
      | (Failed e, w1) \<Rightarrow> Some (Some e, w1)
      | (Awaiting a, w1) \<Rightarrow>
          (case dispatch env (query a) (store w1 ! modelMessage a) of
             None \<Rightarrow> None
           | Some (outcome, m) \<Rightarrow>
               Some (handleSearch_finish a outcome (handlerWrite (modelMessage a) m w1))))"

subsection \<open>The session as a transition system\<close>

text \<open>
  Between the two stretches of \<^verbatim>\<open>handleSearch\<close> any other event handler may run, and
  the handler may write to its message at any time. A page load starts the module anew
  with the stored snapshot.
\<close>

inductive step :: "World \<Rightarrow> World \<Rightarrow> bool" where
  on_authClick: "step w (handleAuthClick w)"
| on_newChat: "step w (handleNewChat w)"
| on_tabSwitch: "c \<in> set (chats (state w)) \<Longrightarrow> step w (handleTabSwitch (id' c) w)"
| on_artifactView: "step w (handleArtifactView index w)"
| on_closeArtifact: "step w (closeArtifactPane w)"
| on_typing: "step w (w\<lparr>searchInput := s\<rparr>)"
| on_submit: "step w (snd (handleSearch_begin w))"
| on_write: "a \<in> set (inflight w) \<Longrightarrow> step w (handlerWrite (modelMessage a) m w)"
| on_settle: "a \<in> set (inflight w) \<Longrightarrow> step w (snd (handleSearch_finish a outcome w))"
| on_reload: "loadState (initialWorld (localStorage w)) = Some w' \<Longrightarrow> step w w'"

inductive reachable :: "World \<Rightarrow> bool" where
  reach_init: "reachable (initialWorld None)"
| reach_step: "reachable w \<Longrightarrow> step w w' \<Longrightarrow> reachable w'"

subsection \<open>Views used in the statements\<close>

text \<open>
  A text as its reader sees it: fenced blocks, each one the prose before it, its language
  tag and its body (what stands between the line of the tag and the closing fence), and
  the text after the last block.
\<close>

fun document :: "(string \<times> string \<times> string) list \<Rightarrow> string \<Rightarrow> string" where
  "document [] post = post"
| "document ((prose, tag, body) # segs) post =
     prose @ fence @ tag @ [NL] @ body @ fence @ document segs post"

definition blocksOf :: "(string \<times> string \<times> string) list \<Rightarrow> (string \<times> string) list" where
  "blocksOf segs = map (\<lambda>(prose, tag, body). (tag, body)) segs"

text \<open>\<open>occurs p s\<close>: the text \<open>p\<close> stands somewhere in \<open>s\<close>.\<close>

fun occurs :: "string \<Rightarrow> string \<Rightarrow> bool" where
  "occurs p [] = (p = [])"
| "occurs p (c # cs) = (startsWith (c # cs) p \<or> occurs p cs)"

text \<open>
  A document is well fenced when its fences are those of its blocks and no others: no
  three backquotes in a row inside the prose or after the last block, none inside a body
  or across its end (so a body does not end in a backquote), and every tag is made of
  word characters only.
\<close>

definition wellFenced :: "(string \<times> string \<times> string) list \<Rightarrow> string \<Rightarrow> bool" where
  "wellFenced segs post =
     (list_all (\<lambda>(prose, tag, body).
                  \<not> occurs fence prose \<and> list_all isWordChar tag \<and>
                  \<not> occurs fence (body @ [CHR 0x60, CHR 0x60])) segs \<and>
      \<not> occurs fence post)"

text \<open>The text has, somewhere, a fence directly followed by the tag \<open>lang\<close> in any case
  and the end of the line.\<close>

definition opens :: "string \<Rightarrow> string \<Rightarrow> bool" where
  "opens lang markdown = occurs (fence @ lang @ [NL]) (toLowerCase markdown)"

text \<open>Of a list of blocks, each a tag and a body: the trimmed bodies of those whose tag, in
  lower case, is among \<open>langs\<close>, in order; and the concatenation of a list of texts with
  a newline after each.\<close>

definition pick :: "string list \<Rightarrow> (string \<times> string) list \<Rightarrow> string list" where
  "pick langs bs = map (\<lambda>b. trim (snd b)) (filter (\<lambda>b. toLowerCase (fst b) \<in> set langs) bs)"

definition joined :: "string list \<Rightarrow> string" where
  "joined cs = concat (map (\<lambda>c. c @ [NL]) cs)"

text \<open>The citation list of an increment (empty when it has none), and the last non-empty
  one of a stream.\<close>

definition citations :: "Chunk \<Rightarrow> json list" where
  "citations chunk = (case groundingOf chunk of None \<Rightarrow> [] | Some gs \<Rightarrow> gs)"

definition lastCitations :: "Chunk list \<Rightarrow> json list option" where
  "lastCitations chunks =
     (let nonEmpty = filter (\<lambda>gs. gs \<noteq> []) (map citations chunks)
      in if nonEmpty = [] then None else Some (last nonEmpty))"

text \<open>The rendering of the lines of a part as the specification words it: the non-blank
  lines, each maximal run of list lines as one list, every other line as a paragraph.\<close>

definition nonBlankLines :: "string \<Rightarrow> string list" where
  "nonBlankLines part = filter (\<lambda>line. trim line \<noteq> []) (splitLines part)"

definition listItems :: "string list \<Rightarrow> string" where
  "listItems run = concat (map (\<lambda>line. ''<li>'' @ drop 2 (trim line) @ ''</li>'') run)"

function groupLines :: "string list \<Rightarrow> string" where
  "groupLines [] = []"
| "groupLines (line # rest) =
     (if isListLine line then
        ''<ul>'' @ listItems (line # takeWhile isListLine rest) @ ''</ul>'' @
        groupLines (dropWhile isListLine rest)
      else ''<p>'' @ line @ ''</p>'' @ groupLines rest)"
  by pat_completeness auto
termination
  by (relation "measure length") (auto simp: length_dropWhile_le less_Suc_eq_le)

definition closeList :: "bool \<times> string \<Rightarrow> string" where
  "closeList st = (if fst st then snd st @ ''</ul>'' else snd st)"

subsection \<open>Invariants\<close>

text \<open>The loading flag guards the suspended activations.\<close>

definition gateInv :: "World \<Rightarrow> bool" where
  "gateInv w = (length (inflight w) \<le> 1 \<and> (inflight w \<noteq> [] \<longrightarrow> isLoading w))"

text \<open>The ids of the chats of a state are below its counter and pairwise different, and
  the active chat, if there is one, is one of them.\<close>

definition idsInv :: "AppState \<Rightarrow> bool" where
  "idsInv s = ((\<forall>c \<in> set (chats s). id' c < nextChatId s) \<and> distinct (map id' (chats s)))"

definition activeOk :: "AppState \<Rightarrow> bool" where
  "activeOk s = (\<forall>i. activeChatId s = Some i \<longrightarrow> i \<in> set (map id' (chats s)))"

text \<open>Every reference held by a history or by a suspended activation is allocated.\<close>

definition refsOk :: "World \<Rightarrow> bool" where
  "refsOk w =
     ((\<forall>c \<in> set (chats (state w)). \<forall>r \<in> set (history c). r < length (store w)) \<and>
      (\<forall>a \<in> set (inflight w). modelMessage a < length (store w)))"

text \<open>The stored snapshot, if there is one, reads back as a state with these properties.\<close>

definition storedOk :: "json option \<Rightarrow> bool" where
  "storedOk saved =
     (case saved of
        None \<Rightarrow> True
      | Some j \<Rightarrow>
          (case decodeState [] j of None \<Rightarrow> False | Some (s, h) \<Rightarrow> idsInv s \<and> activeOk s))"

definition sessionInv :: "World \<Rightarrow> bool" where
  "sessionInv w =
     (idsInv (state w) \<and> activeOk (state w) \<and> refsOk w \<and> storedOk (localStorage w))"

text \<open>What decoding the snapshot of a chat list gives: the same chats, their messages copied
  to the end of the store in order.\<close>

fun relocate :: "Message list \<Rightarrow> Message list \<Rightarrow> Chat list \<Rightarrow> Chat list \<times> Message list" where
  "relocate h' h [] = ([], h')"
| "relocate h' h (c # cs) =
     (let ms = map (\<lambda>r. h ! r) (history c);
          r = relocate (h' @ ms) h cs
      in (c\<lparr>history := [length h' ..< length h' + length ms]\<rparr> # fst r, snd r))"

subsection \<open>Sample sessions\<close>

text \<open>A session signed in for the first time, a query typed into it, and the world
  while the query \<^verbatim>\<open>draw a cat\<close> waits for its handler; an environment in which the image
  service fails.\<close>

definition signedIn :: World where
  "signedIn = handleAuthClick (initialWorld None)"

definition asking :: "string \<Rightarrow> World" where
  "asking q = signedIn\<lparr>searchInput := q\<rparr>"

definition pendingWorld :: World where
  "pendingWorld = snd (handleSearch_begin (asking ''draw a cat''))"

definition pendingActivation :: Activation where
  "pendingActivation = \<lparr>query = ''draw a cat'', modelMessage = 1\<rparr>"

definition quietStream :: ContentStream where
  "quietStream = \<lparr>increments = [], failure = None\<rparr>"

definition idleAttempt :: Attempt where
  "idleAttempt =
     \<lparr>hasSelectedApiKey = Inr True, openSelectKey = None,
      generateVideos = Inr \<lparr>done' = True, uri = Some ''https://video''\<rparr>,
      getVideosOperation = [], fetch = Inr \<lparr>ok = True, statusText = ''OK''\<rparr>,
      blobUrl = Inr ''blob:1''\<rparr>"

definition failingEnv :: Env where
  "failingEnv =
     \<lparr>imageResponse = Inl (newError ''503''),
      videoEnv = \<lparr>attempt = (\<lambda>_. idleAttempt), reopenSelectKey = None\<rparr>,
      codeStream = quietStream, searchStream = quietStream\<rparr>"






text \<open>Answers of the code model, each as its blocks (the prose before the block, its tag
  and its body): one \<^verbatim>\<open>html\<close> and one \<^verbatim>\<open>css\<close> block; a block in a language the program does
  not collect; two script blocks; and a \<^verbatim>\<open>c++\<close> block before an \<^verbatim>\<open>html\<close> and a \<^verbatim>\<open>css\<close>
  block. A stream that delivers given pieces of text and does not fail.\<close>

definition twoBlocks :: "(string \<times> string \<times> string) list" where
  "twoBlocks =
     [(''Here is '' @ [CHR 0x60] @ ''index.html'' @ [CHR 0x60] @ '':'' @ [NL], ''html'', ''<p>hi</p>'' @ [NL]),
      ([NL], ''CSS'', ''p { color: red }'' @ [NL])]"

definition pythonOnly :: "(string \<times> string \<times> string) list" where
  "pythonOnly = [(''Try this:'' @ [NL], ''python'', ''print(1)'' @ [NL])]"

definition twoScripts :: "(string \<times> string \<times> string) list" where
  "twoScripts =
     [([], ''js'', ''let a = 1;'' @ [NL]), ([NL] @ ''then'' @ [NL], ''javascript'', ''a++;'' @ [NL])]"

definition cppFirst :: "(string \<times> string \<times> string) list" where
  "cppFirst =
     [([], ''c++'', ''int x;'' @ [NL]), ([NL], ''html'', ''<p>hi</p>'' @ [NL]),
      ([NL], ''css'', ''p { color: red }'' @ [NL])]"

definition streamOf :: "string list \<Rightarrow> ContentStream" where
  "streamOf pieces =
     \<lparr>increments = map (\<lambda>t. \<lparr>chunkText = Some t, candidates = None\<rparr>) pieces, failure = None\<rparr>"

text \<open>Increments of a search stream, with and without citations.\<close>

definition cited :: "json list \<Rightarrow> Chunk" where
  "cited gs =
     \<lparr>chunkText = Some ''word '',
      candidates = Some [\<lparr>groundingMetadata = Some \<lparr>groundingChunks = Some gs\<rparr>\<rparr>]\<rparr>"

definition uncited :: Chunk where
  "uncited = \<lparr>chunkText = Some ''more '', candidates = Some [\<lparr>groundingMetadata = None\<rparr>]\<rparr>"

text \<open>A search answer whose one increment has a citation list holding \<^verbatim>\<open>null\<close>, and the
  world that \<^verbatim>\<open>handleSearch\<close> leaves when the query \<^verbatim>\<open>who won\<close> is answered so.\<close>

definition nullCitationEnv :: Env where
  "nullCitationEnv = failingEnv\<lparr>searchStream := \<lparr>increments = [cited [JNull]], failure = None\<rparr>\<rparr>"

definition unsavedWorld :: World where
  "unsavedWorld =
     snd (handleSearch_finish \<lparr>query = ''who won'', modelMessage = 1\<rparr> None
            (handlerWrite 1
               (snd (handleTextSearch (searchStream nullCitationEnv) (newMessage Model [])))
               (snd (handleSearch_begin (asking ''who won'')))))"

text \<open>Markdown texts: the sample of the specification, and a list with an indented item
  and a blank line inside.\<close>

definition sampleMarkdown :: string where
  "sampleMarkdown = ''**bold** '' @ [NL] @ ''* item1'' @ [NL] @ ''* item2''"

definition indentedList :: string where
  "indentedList = ''intro'' @ [NL] @ ''  * a'' @ [NL] @ ''   '' @ [NL] @ ''* b'' @ [NL] @ ''end''"

text \<open>A session with two chats: one empty, one with a question, an image and a code
  artifact.\<close>

definition sampleSession :: World where
  "sampleSession =
     (initialWorld None)
       \<lparr>state :=
          \<lparr>isAuthenticated = True,
           chats = [\<lparr>id' = 1, title = ''Chat 1'', history = []\<rparr>,
                    \<lparr>id' = 2, title = ''Chat 2'', history = [0, 1, 2]\<rparr>],
           activeChatId = Some 2, nextChatId = 3\<rparr>,
        store :=
          [newMessage User ''draw a cat'',
           (newMessage Model ''Here is the image'')\<lparr>image' := Some ''data:image/png;base64,AAAA''\<rparr>,
           (newMessage Model ''Here is the page'')
             \<lparr>code := Some \<lparr>html = ''<p>hi</p>'', css = ''p {}'', javascript = []\<rparr>\<rparr>]\<rparr>"

section \<open>Properties\<close>

subsection \<open>The classifier\<close>

lemma toLowerChar_idem: "toLowerChar (toLowerChar c) = toLowerChar c"
  by (auto simp: toLowerChar_def Let_def)

lemma length_toLowerCase [simp]: "length (toLowerCase s) = length s"
  by (simp add: toLowerCase_def)

lemma toLowerCase_idem: "toLowerCase (toLowerCase s) = toLowerCase s"
  by (simp add: toLowerCase_def toLowerChar_idem)

lemma startsWithCI_prefix:
  assumes "toLowerCase pre = p"
  shows "startsWithCI (pre @ rest) p"
proof -
  have len: "length p = length pre"
    using assms length_toLowerCase [of pre] by simp
  have "toLowerCase p = p"
    using assms toLowerCase_idem [of pre] by simp
  with len assms show ?thesis
    by (simp add: startsWithCI_def)
qed

lemma imageKeywords_prefix:
  assumes "p \<in> set [''draw'', ''create'', ''generate'', ''make an image of'', ''show me a picture of'']"
    and "toLowerCase pre = p"
  shows "imageKeywords (pre @ rest)"
  unfolding imageKeywords_def testPrefixes_def list_ex_iff
  using assms startsWithCI_prefix by blast

text \<open>
  Claim C4. The rules are tried in the order image (anchored at the start), video, code,
  with text search as the default, and matching ignores case. A query that starts with
  one of the image prefixes, in any case, is an image query whatever follows; a query is
  a video query only when the image rule fails, a code query only when both fail. The
  four sample queries of the specification are classified as it says.
\<close>

theorem classify_rule_order:
  "(p \<in> set [''draw'', ''create'', ''generate'', ''make an image of'', ''show me a picture of''] \<and>
      toLowerCase pre = p \<longrightarrow> classify (pre @ rest) = Image) \<and>
   (\<not> imageKeywords q1 \<and> videoKeywords q1 \<longrightarrow> classify q1 = Video) \<and>
   (\<not> imageKeywords q2 \<and> \<not> videoKeywords q2 \<and> codeKeywords q2 \<longrightarrow> classify q2 = Code) \<and>
   (\<not> imageKeywords q3 \<and> \<not> videoKeywords q3 \<and> \<not> codeKeywords q3 \<longrightarrow> classify q3 = TextSearch) \<and>
   classify ''draw a video game character'' = Image \<and>
   classify ''animate a logo'' = Video \<and>
   classify ''write a function to sort'' = Code \<and>
   classify ''who won the 2022 world cup'' = TextSearch"
proof -
  have prefix: "p \<in> set [''draw'', ''create'', ''generate'', ''make an image of'', ''show me a picture of''] \<and>
      toLowerCase pre = p \<longrightarrow> classify (pre @ rest) = Image"
    using imageKeywords_prefix [of p pre rest] by (simp add: classify_def)
  have e1: "classify ''draw a video game character'' = Image" by code_simp
  have e2: "classify ''animate a logo'' = Video" by code_simp
  have e3: "classify ''write a function to sort'' = Code" by code_simp
  have e4: "classify ''who won the 2022 world cup'' = TextSearch" by code_simp
  from prefix e1 e2 e3 e4 show ?thesis
    by (simp add: classify_def)
qed

theorem classify_rule_order_witness:
  "videoKeywords ''DRAW a video of the code'' \<and> codeKeywords ''DRAW a video of the code'' \<and>
   classify (''DRAW'' @ '' a video of the code'') = Image \<and>
   codeKeywords ''animate the html'' \<and> classify ''animate the html'' = Video \<and>
   classify ''a css snippet'' = Code \<and>
   classify ''hello there'' = TextSearch"
proof -
  have h0: "''draw'' \<in> set [''draw'', ''create'', ''generate'', ''make an image of'', ''show me a picture of''] \<and>
      toLowerCase ''DRAW'' = ''draw''" by code_simp
  have v: "videoKeywords ''DRAW a video of the code''" by code_simp
  have c: "codeKeywords ''DRAW a video of the code''" by code_simp
  have h1: "\<not> imageKeywords ''animate the html'' \<and> videoKeywords ''animate the html''" by code_simp
  have c1: "codeKeywords ''animate the html''" by code_simp
  have h2: "\<not> imageKeywords ''a css snippet'' \<and> \<not> videoKeywords ''a css snippet'' \<and>
      codeKeywords ''a css snippet''" by code_simp
  have h3: "\<not> imageKeywords ''hello there'' \<and> \<not> videoKeywords ''hello there'' \<and>
      \<not> codeKeywords ''hello there''" by code_simp
  from classify_rule_order [of "''draw''" "''DRAW''" "'' a video of the code''"
      "''animate the html''" "''a css snippet''" "''hello there''"] h0 h1 h2 h3 v c c1
  show ?thesis by blast
qed

subsection \<open>The guard and the loading flag of \<^verbatim>\<open>handleSearch\<close>\<close>

lemma begin_dropped:
  "trim (searchInput w) = [] \<or> isLoading w \<or> activeChatId (state w) = None
   \<Longrightarrow> handleSearch_begin w = (Dropped, w)"
  by (auto simp: handleSearch_begin_def Let_def)

lemma handleSearch_dropped:
  "handleSearch_begin w = (Dropped, w1) \<Longrightarrow> handleSearch env w = Some (None, w1)"
  by (simp add: handleSearch_def)

lemma begin_cases:
  "handleSearch_begin w = (b, w1) \<Longrightarrow>
     (b = Dropped \<and> w1 = w) \<or>
     (\<exists>e. b = Failed e \<and> \<not> isLoading w \<and> isLoading w1 \<and> inflight w1 = inflight w) \<or>
     (\<exists>a. b = Awaiting a \<and> \<not> isLoading w \<and> isLoading w1 \<and> inflight w1 = inflight w @ [a]
         \<and> query a = trim (searchInput w) \<and> modelMessage a < length (store w1)
         \<and> store w1 ! modelMessage a = newMessage Model [])"
  by (auto simp: handleSearch_begin_def Let_def saveState_def nth_append split: if_splits option.splits)

lemma gate_frame:
  "inflight (saveState w) = inflight w" "isLoading (saveState w) = isLoading w"
  "inflight (closeArtifactPane w) = inflight w" "isLoading (closeArtifactPane w) = isLoading w"
  "inflight (handleNewChat w) = inflight w" "isLoading (handleNewChat w) = isLoading w"
  "inflight (handleTabSwitch i w) = inflight w" "isLoading (handleTabSwitch i w) = isLoading w"
  "inflight (handleAuthClick w) = inflight w" "isLoading (handleAuthClick w) = isLoading w"
  "inflight (handleArtifactView k w) = inflight w" "isLoading (handleArtifactView k w) = isLoading w"
  "inflight (handlerWrite r m w) = inflight w" "isLoading (handlerWrite r m w) = isLoading w"
  by (simp_all add: saveState_def closeArtifactPane_def handleNewChat_def handleTabSwitch_def
      handleAuthClick_def handleArtifactView_def handlerWrite_def Let_def)

lemma loadState_initial:
  "loadState (initialWorld j) = Some w' \<Longrightarrow> inflight w' = [] \<and> \<not> isLoading w'"
  by (auto simp: loadState_def initialWorld_def split: option.splits)

lemma gate_begin: "gateInv w \<Longrightarrow> gateInv (snd (handleSearch_begin w))"
proof -
  assume inv: "gateInv w"
  obtain b w1 where eq: "handleSearch_begin w = (b, w1)" by (cases "handleSearch_begin w")
  from begin_cases [OF eq] inv show ?thesis
    unfolding eq gateInv_def by (cases "inflight w") auto
qed

lemma gate_finish:
  "gateInv w \<Longrightarrow> a \<in> set (inflight w) \<Longrightarrow> gateInv (snd (handleSearch_finish a outcome w))"
  by (cases "inflight w")
     (auto simp: gateInv_def handleSearch_finish_def Let_def saveState_def split: option.splits)

lemma gate_step: "step w w' \<Longrightarrow> gateInv w \<Longrightarrow> gateInv w'"
proof (induction rule: step.induct)
  case (on_submit w)
  then show ?case by (rule gate_begin)
next
  case (on_settle a w outcome)
  then show ?case by (simp add: gate_finish)
next
  case (on_reload w w')
  then show ?case using loadState_initial [of "localStorage w" w'] by (simp add: gateInv_def)
qed (simp_all add: gateInv_def gate_frame)

lemma gate_reachable: "reachable w \<Longrightarrow> gateInv w"
proof (induction rule: reachable.induct)
  case reach_init
  show ?case by (simp add: gateInv_def initialWorld_def)
next
  case (reach_step w w')
  then show ?case using gate_step by blast
qed




lemma reachable_signedIn: "reachable signedIn"
  unfolding signedIn_def by (rule reach_step [OF reach_init on_authClick])

lemma reachable_asking: "reachable (asking q)"
  unfolding asking_def by (rule reach_step [OF reachable_signedIn on_typing])

lemma reachable_pendingWorld: "reachable pendingWorld"
  unfolding pendingWorld_def by (rule reach_step [OF reachable_asking on_submit])

lemma pending_begin: "handleSearch_begin (asking ''draw a cat'') = (Awaiting pendingActivation, pendingWorld)"
proof -
  have "fst (handleSearch_begin (asking ''draw a cat'')) = Awaiting pendingActivation"
    by code_simp
  then show ?thesis
    unfolding pendingWorld_def by (metis prod.collapse)
qed

text \<open>
  Claim C2. A call of \<^verbatim>\<open>handleSearch\<close> made while \<^verbatim>\<open>isLoading\<close> is true returns at the
  guard: nothing is appended to any history, nothing is queued, the world is the one it
  was called in. Hence in every reachable world at most one activation is waiting for a
  handler, and whenever one is, the flag is up.
\<close>

theorem handleSearch_gate:
  "(isLoading w \<longrightarrow> handleSearch_begin w = (Dropped, w) \<and> handleSearch env w = Some (None, w)) \<and>
   (reachable v \<longrightarrow> length (inflight v) \<le> 1 \<and> (inflight v \<noteq> [] \<longrightarrow> isLoading v))"
proof -
  have "isLoading w \<longrightarrow> handleSearch_begin w = (Dropped, w) \<and> handleSearch env w = Some (None, w)"
    using begin_dropped [of w] handleSearch_dropped [of w w env] by blast
  moreover have "reachable v \<longrightarrow> length (inflight v) \<le> 1 \<and> (inflight v \<noteq> [] \<longrightarrow> isLoading v)"
    using gate_reachable [of v] by (simp add: gateInv_def)
  ultimately show ?thesis by blast
qed

theorem handleSearch_gate_witness:
  "isLoading (pendingWorld\<lparr>searchInput := ''animate a logo''\<rparr>) \<and>
   trim (searchInput (pendingWorld\<lparr>searchInput := ''animate a logo''\<rparr>)) \<noteq> [] \<and>
   activeChatId (state (pendingWorld\<lparr>searchInput := ''animate a logo''\<rparr>)) = Some 1 \<and>
   handleSearch_begin (pendingWorld\<lparr>searchInput := ''animate a logo''\<rparr>) =
     (Dropped, pendingWorld\<lparr>searchInput := ''animate a logo''\<rparr>) \<and>
   handleSearch failingEnv (pendingWorld\<lparr>searchInput := ''animate a logo''\<rparr>) =
     Some (None, pendingWorld\<lparr>searchInput := ''animate a logo''\<rparr>) \<and>
   reachable pendingWorld \<and> inflight pendingWorld = [pendingActivation] \<and>
   length (inflight pendingWorld) \<le> 1"
proof -
  have l: "isLoading (pendingWorld\<lparr>searchInput := ''animate a logo''\<rparr>)" by code_simp
  have t: "trim (searchInput (pendingWorld\<lparr>searchInput := ''animate a logo''\<rparr>)) \<noteq> []" by code_simp
  have c: "activeChatId (state (pendingWorld\<lparr>searchInput := ''animate a logo''\<rparr>)) = Some 1" by code_simp
  have f: "inflight pendingWorld = [pendingActivation]" by code_simp
  from handleSearch_gate [of "pendingWorld\<lparr>searchInput := ''animate a logo''\<rparr>" failingEnv pendingWorld]
    l t c f reachable_pendingWorld
  show ?thesis by simp
qed

text \<open>
  Claim C10. When the text of the search box trims to the empty string, or no chat is
  active, \<^verbatim>\<open>handleSearch\<close> returns at the guard even though nothing is loading: no message
  is appended, no handler runs, the flag is not raised, the world is unchanged.
\<close>

theorem handleSearch_guard:
  "trim (searchInput w) = [] \<or> activeChatId (state w) = None \<Longrightarrow>
     handleSearch_begin w = (Dropped, w) \<and> handleSearch env w = Some (None, w)"
  using begin_dropped [of w] handleSearch_dropped [of w w env] by blast

theorem handleSearch_guard_witness:
  "\<not> isLoading (asking ''   '') \<and> activeChatId (state (asking ''   '')) = Some 1 \<and>
   handleSearch failingEnv (asking ''   '') = Some (None, asking ''   '') \<and>
   \<not> isLoading ((initialWorld None)\<lparr>searchInput := ''hello''\<rparr>) \<and>
   handleSearch_begin ((initialWorld None)\<lparr>searchInput := ''hello''\<rparr>) =
     (Dropped, (initialWorld None)\<lparr>searchInput := ''hello''\<rparr>)"
proof -
  have a: "\<not> isLoading (asking ''   '')" by code_simp
  have b: "activeChatId (state (asking ''   '')) = Some 1" by code_simp
  have c: "trim (searchInput (asking ''   '')) = []" by code_simp
  have d: "\<not> isLoading ((initialWorld None)\<lparr>searchInput := ''hello''\<rparr>)" by code_simp
  have e: "activeChatId (state ((initialWorld None)\<lparr>searchInput := ''hello''\<rparr>)) = None" by code_simp
  from handleSearch_guard [of "asking ''   ''" failingEnv]
    handleSearch_guard [of "(initialWorld None)\<lparr>searchInput := ''hello''\<rparr>" failingEnv] a b c d e
  show ?thesis by simp
qed

subsection \<open>Persistence\<close>

lemma decodeCode_encodeCode [simp]: "decodeCode (encodeCode c) = Some c"
  by (simp add: decodeCode_def encodeCode_def required_def)

lemma decodeRole_encodeRole [simp]: "decodeRole (encodeRole r) = Some r"
  by (cases r) (simp_all add: decodeRole_def encodeRole_def)

lemma decodeMessage_encodeMessage [simp]: "decodeMessage (encodeMessage m) = Some m"
  by (cases m)
     (simp add: decodeMessage_def encodeMessage_def required_def optional_def optField_def
        split: option.splits)

lemma traverse_decodeMessage [simp]:
  "traverse decodeMessage (map (\<lambda>r. encodeMessage (f r)) rs) = Some (map f rs)"
  by (induction rs) simp_all

lemma decodeChat_encodeChat:
  "decodeChat h' (encodeChat h c) =
     Some (c\<lparr>history := [length h' ..< length h' + length (history c)]\<rparr>,
           h' @ map (\<lambda>r. h ! r) (history c))"
  by (cases c) (simp add: decodeChat_def encodeChat_def required_def)

lemma decodeChats_encode:
  "decodeChats h' (map (encodeChat h) cs) = Some (relocate h' h cs)"
  by (induction cs arbitrary: h') (simp_all add: decodeChat_encodeChat Let_def case_prod_beta)

lemma decodeState_encodeState:
  "decodeState h' (encodeState h s) =
     Some (s\<lparr>chats := fst (relocate h' h (chats s))\<rparr>, snd (relocate h' h (chats s)))"
  by (cases s)
     (simp add: decodeState_def encodeState_def required_def decodeChats_encode decodeActive_def
        split: option.splits)

lemma relocate_ids [simp]: "map id' (fst (relocate h' h cs)) = map id' cs"
  by (induction cs arbitrary: h') (simp_all add: Let_def)

lemma relocate_extends: "\<exists>ext. snd (relocate h' h cs) = h' @ ext"
proof (induction cs arbitrary: h')
  case Nil
  show ?case by simp
next
  case (Cons c cs)
  from Cons [of "h' @ map (\<lambda>r. h ! r) (history c)"] show ?case
    by (auto simp: Let_def)
qed

lemma relocate_values:
  "map (chatValue (snd (relocate h' h cs))) (fst (relocate h' h cs)) = map (chatValue h) cs"
proof (induction cs arbitrary: h')
  case Nil
  show ?case by simp
next
  case (Cons c cs)
  let ?ms = "map (\<lambda>r. h ! r) (history c)"
  obtain ext where ext: "snd (relocate (h' @ ?ms) h cs) = (h' @ ?ms) @ ext"
    using relocate_extends by blast
  have "map (\<lambda>r. ((h' @ ?ms) @ ext) ! r) [length h' ..< length h' + length ?ms] = ?ms"
    by (rule nth_equalityI) (simp_all add: nth_append)
  with ext Cons [of "h' @ ?ms"] show ?case
    by (simp add: Let_def chatValue_def)
qed

lemma restore_saved:
  "loadState (initialWorld (localStorage (saveState w))) =
     Some ((initialWorld (localStorage (saveState w)))
            \<lparr>state := (state w)\<lparr>chats := fst (relocate [] (store w) (chats (state w)))\<rparr>,
             store := snd (relocate [] (store w) (chats (state w)))\<rparr>)"
  by (simp add: loadState_def saveState_def initialWorld_def decodeState_encodeState)

lemma reload_saved:
  "localStorage v = localStorage (saveState w) \<Longrightarrow>
   loadState v =
     Some (v\<lparr>state := (state w)\<lparr>chats := fst (relocate (store v) (store w) (chats (state w)))\<rparr>,
             store := snd (relocate (store v) (store w) (chats (state w)))\<rparr>)"
  by (simp add: loadState_def saveState_def decodeState_encodeState)

text \<open>
  Claim C8. For a session with two chats, one of them empty and the other with three
  messages among which one has an image and one a code artifact: \<^verbatim>\<open>saveState\<close> followed,
  on the next page load, by \<^verbatim>\<open>loadState\<close> gives a session with the same chat list (ids,
  titles and messages, by value), the same active chat id and the same counter.
\<close>

theorem save_load_roundtrip:
  assumes "length (chats (state w)) = 2"
    and "\<exists>c \<in> set (chats (state w)). history c = []"
    and "\<exists>c \<in> set (chats (state w)). length (history c) = 3 \<and>
           (\<exists>r \<in> set (history c). image' (store w ! r) \<noteq> None) \<and>
           (\<exists>r \<in> set (history c). code (store w ! r) \<noteq> None)"
  shows "\<exists>w'. loadState (initialWorld (localStorage (saveState w))) = Some w' \<and>
           chatList w' = chatList w \<and>
           activeChatId (state w') = activeChatId (state w) \<and>
           nextChatId (state w') = nextChatId (state w) \<and>
           isAuthenticated (state w') = isAuthenticated (state w)"
proof -
  let ?v = "initialWorld (localStorage (saveState w))"
  have "localStorage ?v = localStorage (saveState w)"
    by (simp add: initialWorld_def)
  from reload_saved [OF this] show ?thesis
    by (simp add: chatList_def relocate_values)
qed

theorem save_load_roundtrip_witness:
  "length (chats (state sampleSession)) = 2 \<and>
   history (chats (state sampleSession) ! 0) = [] \<and>
   length (history (chats (state sampleSession) ! 1)) = 3 \<and>
   image' (store sampleSession ! 1) \<noteq> None \<and> code (store sampleSession ! 2) \<noteq> None \<and>
   (\<exists>w'. loadState (initialWorld (localStorage (saveState sampleSession))) = Some w' \<and>
         chatList w' = chatList sampleSession \<and>
         activeChatId (state w') = Some 2 \<and> nextChatId (state w') = 3)"
proof -
  have a: "length (chats (state sampleSession)) = 2" by code_simp
  have b: "\<exists>c \<in> set (chats (state sampleSession)). history c = []" by code_simp
  have c: "\<exists>c \<in> set (chats (state sampleSession)). length (history c) = 3 \<and>
           (\<exists>r \<in> set (history c). image' (store sampleSession ! r) \<noteq> None) \<and>
           (\<exists>r \<in> set (history c). code (store sampleSession ! r) \<noteq> None)" by code_simp
  have d: "history (chats (state sampleSession) ! 0) = [] \<and>
     length (history (chats (state sampleSession) ! 1)) = 3 \<and>
     image' (store sampleSession ! 1) \<noteq> None \<and> code (store sampleSession ! 2) \<noteq> None" by code_simp
  have e: "activeChatId (state sampleSession) = Some 2 \<and> nextChatId (state sampleSession) = 3" by code_simp
  from save_load_roundtrip [OF a b c] a d e show ?thesis by fastforce
qed

subsection \<open>Invariants of the reachable worlds\<close>

lemma idsInv_cong:
  assumes m: "map id' (chats s') = map id' (chats s)" and n: "nextChatId s' = nextChatId s"
  shows "idsInv s' = idsInv s"
proof -
  have "(\<forall>c \<in> set (chats s'). id' c < nextChatId s') = (\<forall>i \<in> set (map id' (chats s')). i < nextChatId s')"
    by auto
  also have "\<dots> = (\<forall>i \<in> set (map id' (chats s)). i < nextChatId s)"
    using m n by simp
  also have "\<dots> = (\<forall>c \<in> set (chats s). id' c < nextChatId s)"
    by auto
  finally show ?thesis using m by (simp add: idsInv_def)
qed

lemma activeOk_cong:
  "map id' (chats s') = map id' (chats s) \<Longrightarrow> activeChatId s' = activeChatId s \<Longrightarrow>
   activeOk s' = activeOk s"
  by (simp add: activeOk_def)

lemma storedOk_encode: "idsInv s \<Longrightarrow> activeOk s \<Longrightarrow> storedOk (Some (encodeState h s))"
  using idsInv_cong [of "s\<lparr>chats := fst (relocate [] h (chats s))\<rparr>" s]
    activeOk_cong [of "s\<lparr>chats := fst (relocate [] h (chats s))\<rparr>" s]
  by (simp add: storedOk_def decodeState_encodeState)

lemma state_saveState [simp]: "state (saveState w) = state w"
  by (simp add: saveState_def)

lemma refsOk_saveState [simp]: "refsOk (saveState w) = refsOk w"
  by (simp add: refsOk_def saveState_def)

lemma sessionInv_saveState:
  "idsInv (state w) \<Longrightarrow> activeOk (state w) \<Longrightarrow> refsOk w \<Longrightarrow> sessionInv (saveState w)"
  by (simp add: sessionInv_def storedOk_encode) (simp add: saveState_def storedOk_encode)

lemma sessionInv_saved: "sessionInv w \<Longrightarrow> sessionInv (saveState w)"
  by (rule sessionInv_saveState) (simp_all add: sessionInv_def)

lemma sessionInv_closeArtifactPane: "sessionInv w \<Longrightarrow> sessionInv (closeArtifactPane w)"
  unfolding closeArtifactPane_def
  by (rule sessionInv_saveState) (simp_all add: sessionInv_def refsOk_def)

lemma pushHistory_ids [simp]: "map id' (pushHistory i r cs) = map id' cs"
  by (induction cs) simp_all

lemma pushHistory_refs:
  "c \<in> set (pushHistory i r cs) \<Longrightarrow> x \<in> set (history c) \<Longrightarrow>
     x = r \<or> (\<exists>c' \<in> set cs. x \<in> set (history c'))"
  by (induction cs) (auto split: if_splits)

lemma sessionInv_handleNewChat:
  assumes "sessionInv w"
  shows "sessionInv (handleNewChat w)"
proof -
  let ?s = "state w"
  let ?s3 = "?s\<lparr>nextChatId := nextChatId ?s + 1,
                 chats := chats ?s @ [\<lparr>id' = nextChatId ?s, title = ''Chat '' @ showNat (nextChatId ?s), history = []\<rparr>],
                 activeChatId := Some (nextChatId ?s)\<rparr>"
  have eq: "handleNewChat w = closeArtifactPane (w\<lparr>state := ?s3\<rparr>)"
    by (simp add: handleNewChat_def Let_def)
  have "idsInv ?s3"
    using assms by (fastforce simp: sessionInv_def idsInv_def)
  moreover have "activeOk ?s3"
    by (simp add: activeOk_def)
  moreover have "refsOk (w\<lparr>state := ?s3\<rparr>)"
    using assms by (auto simp: sessionInv_def refsOk_def)
  moreover have "storedOk (localStorage (w\<lparr>state := ?s3\<rparr>))"
    using assms by (simp add: sessionInv_def)
  ultimately have "sessionInv (w\<lparr>state := ?s3\<rparr>)"
    by (simp add: sessionInv_def)
  then show ?thesis
    unfolding eq by (rule sessionInv_closeArtifactPane)
qed

lemma sessionInv_handleTabSwitch:
  assumes inv: "sessionInv w" and c: "c \<in> set (chats (state w))"
  shows "sessionInv (handleTabSwitch (id' c) w)"
proof (cases "Some (id' c) = activeChatId (state w)")
  case True
  with inv show ?thesis by (simp add: handleTabSwitch_def)
next
  case False
  from inv c have "sessionInv (w\<lparr>state := (state w)\<lparr>activeChatId := Some (id' c)\<rparr>\<rparr>)"
    by (simp add: sessionInv_def idsInv_def activeOk_def refsOk_def)
  then have "sessionInv (closeArtifactPane (w\<lparr>state := (state w)\<lparr>activeChatId := Some (id' c)\<rparr>\<rparr>))"
    by (rule sessionInv_closeArtifactPane)
  with False show ?thesis by (simp add: handleTabSwitch_def)
qed

lemma sessionInv_handleAuthClick:
  assumes inv: "sessionInv w"
  shows "sessionInv (handleAuthClick w)"
proof (cases "isAuthenticated (state w)")
  case True
  let ?w1 = "w\<lparr>state := \<lparr>isAuthenticated = False, chats = [], activeChatId = None, nextChatId = 1\<rparr>\<rparr>"
  from inv have "sessionInv ?w1"
    by (simp add: sessionInv_def idsInv_def activeOk_def refsOk_def)
  then have "sessionInv (closeArtifactPane ?w1)"
    by (rule sessionInv_closeArtifactPane)
  then have "sessionInv (saveState (closeArtifactPane ?w1))"
    by (rule sessionInv_saved)
  with True show ?thesis by (simp add: handleAuthClick_def)
next
  case False
  let ?w1 = "w\<lparr>state := (state w)\<lparr>isAuthenticated := True\<rparr>\<rparr>"
  from inv have w1: "sessionInv ?w1"
    by (simp add: sessionInv_def idsInv_def activeOk_def refsOk_def)
  have "sessionInv (if length (chats (state ?w1)) = 0 then handleNewChat ?w1 else ?w1)"
    using w1 sessionInv_handleNewChat [OF w1] by simp
  then have "sessionInv (saveState (if length (chats (state ?w1)) = 0 then handleNewChat ?w1 else ?w1))"
    by (rule sessionInv_saved)
  with False show ?thesis by (simp add: handleAuthClick_def Let_def)
qed

lemma find_active:
  "i \<in> set (map id' cs) \<Longrightarrow> find (\<lambda>c. id' c = i) cs \<noteq> None"
  by (induction cs) auto

lemma sessionInv_begin:
  assumes inv: "sessionInv w"
  shows "sessionInv (snd (handleSearch_begin w))"
proof -
  from inv have ids: "idsInv (state w)" and act: "activeOk (state w)" and refs: "refsOk w"
    and st: "storedOk (localStorage w)"
    by (simp_all add: sessionInv_def)
  have stOk: "idsInv ((state w)\<lparr>chats := cs\<rparr>) \<and> activeOk ((state w)\<lparr>chats := cs\<rparr>)"
    if "map id' cs = map id' (chats (state w))" for cs
    using that ids act idsInv_cong [of "(state w)\<lparr>chats := cs\<rparr>" "state w"]
      activeOk_cong [of "(state w)\<lparr>chats := cs\<rparr>" "state w"] by simp
  show ?thesis
  proof (cases "trim (searchInput w) = [] \<or> isLoading w \<or> activeChatId (state w) = None \<or>
      activeChatId (state w) = Some 0")
    case True
    then have "handleSearch_begin w = (Dropped, w)"
      by (simp add: handleSearch_begin_def Let_def)
    with inv show ?thesis by simp
  next
    case False
    then obtain i where i: "activeChatId (state w) = Some i"
      by auto
    with act obtain c where c: "find (\<lambda>c. id' c = i) (chats (state w)) = Some c"
      using find_active [of i "chats (state w)"] by (auto simp: activeOk_def)
    let ?q = "trim (searchInput w)"
    let ?n = "length (store w)"
    let ?cs1 = "pushHistory i ?n (chats (state w))"
    let ?cs2 = "pushHistory i (Suc ?n) ?cs1"
    let ?a = "\<lparr>query = ?q, modelMessage = Suc ?n\<rparr>"
    let ?saved = "Some (encodeState (store w @ [newMessage User ?q]) ((state w)\<lparr>chats := ?cs1\<rparr>))"
    let ?w3 = "w\<lparr>isLoading := True,
                 store := store w @ [newMessage User ?q],
                 state := (state w)\<lparr>chats := ?cs1\<rparr>,
                 localStorage := ?saved\<rparr>"
    let ?w' = "w\<lparr>isLoading := True,
                 store := store w @ [newMessage User ?q, newMessage Model []],
                 state := (state w)\<lparr>chats := ?cs2\<rparr>,
                 localStorage := ?saved,
                 searchInput := [],
                 inflight := inflight w @ [?a]\<rparr>"
    have res: "snd (handleSearch_begin w) = (if renderChatHistory_throws ?w3 then ?w3 else ?w')"
      using False i c by (simp add: handleSearch_begin_def Let_def saveState_def)
    have r0: "\<forall>c \<in> set ?cs1. \<forall>r \<in> set (history c). r < Suc ?n"
    proof (intro ballI)
      fix c r assume "c \<in> set ?cs1" "r \<in> set (history c)"
      from pushHistory_refs [OF this] refs show "r < Suc ?n"
        by (auto simp: refsOk_def less_Suc_eq)
    qed
    have r1: "\<forall>c \<in> set ?cs2. \<forall>r \<in> set (history c). r < Suc (Suc ?n)"
    proof (intro ballI)
      fix c r assume "c \<in> set ?cs2" "r \<in> set (history c)"
      from pushHistory_refs [OF this] r0 show "r < Suc (Suc ?n)"
        by (auto simp: less_Suc_eq)
    qed
    have saved: "storedOk ?saved"
      using stOk [of ?cs1] by (simp add: storedOk_encode)
    have "refsOk ?w3"
      using r0 refs by (auto simp: refsOk_def less_Suc_eq)
    with saved stOk [of ?cs1] have w3: "sessionInv ?w3"
      by (simp add: sessionInv_def)
    have "refsOk ?w'"
      using r1 refs by (auto simp: refsOk_def less_Suc_eq)
    with saved stOk [of ?cs2] have w': "sessionInv ?w'"
      by (simp add: sessionInv_def)
    from w3 w' show ?thesis
      unfolding res by simp
  qed
qed

lemma sessionInv_handlerWrite: "sessionInv w \<Longrightarrow> sessionInv (handlerWrite r m w)"
  by (simp add: sessionInv_def handlerWrite_def refsOk_def)

lemma sessionInv_finish:
  assumes "sessionInv w"
  shows "sessionInv (snd (handleSearch_finish a outcome w))"
proof -
  let ?w1 = "case outcome of None \<Rightarrow> w
     | Some error \<Rightarrow> w\<lparr>store := (store w)[modelMessage a := (store w ! modelMessage a)\<lparr>text' := apologyText\<rparr>]\<rparr>"
  let ?w3 = "?w1\<lparr>isLoading := False, inflight := remove1 a (inflight ?w1)\<rparr>"
  have "sessionInv ?w1"
    using assms by (cases outcome) (simp_all add: sessionInv_def refsOk_def)
  then have w3: "sessionInv ?w3"
    by (auto simp: sessionInv_def refsOk_def dest: notin_set_remove1)
  then have "sessionInv (saveState ?w3)"
    by (rule sessionInv_saved)
  with w3 show ?thesis
    by (simp add: handleSearch_finish_def Let_def)
qed

lemma decodeChat_refs:
  "decodeChat h j = Some (c, h') \<Longrightarrow>
     length h \<le> length h' \<and> (\<forall>r \<in> set (history c). r < length h')"
  by (auto simp: decodeChat_def required_def split: Option.bind_splits)

lemma decodeChats_refs:
  "decodeChats h js = Some (cs, h') \<Longrightarrow>
     length h \<le> length h' \<and> (\<forall>c \<in> set cs. \<forall>r \<in> set (history c). r < length h')"
proof (induction js arbitrary: h cs)
  case Nil
  then show ?case by simp
next
  case (Cons j js)
  from Cons.prems obtain c h1 cs' where
    c: "decodeChat h j = Some (c, h1)" and rest: "decodeChats h1 js = Some (cs', h')" and cs: "cs = c # cs'"
    by (auto split: option.splits)
  from decodeChat_refs [OF c] Cons.IH [OF rest] cs show ?case
    by fastforce
qed

lemma sessionInv_reload:
  assumes inv: "sessionInv w" and load: "loadState (initialWorld (localStorage w)) = Some w'"
  shows "sessionInv w'"
proof (cases "localStorage w")
  case None
  with load have "w' = initialWorld None"
    by (simp add: loadState_def initialWorld_def)
  then show ?thesis
    by (simp add: sessionInv_def idsInv_def activeOk_def refsOk_def storedOk_def
        initialWorld_def initialState_def)
next
  case (Some j)
  with load obtain s h where dec: "decodeState [] j = Some (s, h)"
    and w': "w' = (initialWorld (Some j))\<lparr>state := s, store := h\<rparr>"
    by (auto simp: loadState_def initialWorld_def split: option.splits)
  from inv Some dec have ok: "idsInv s \<and> activeOk s"
    by (simp add: sessionInv_def storedOk_def)
  from dec obtain js r where r: "decodeChats [] js = Some r" and s: "chats s = fst r" "h = snd r"
    by (auto simp: decodeState_def split: Option.bind_splits)
  from decodeChats_refs [of "[]" js "fst r" "snd r"] r s
  have "\<forall>c \<in> set (chats s). \<forall>r \<in> set (history c). r < length h"
    by simp
  with ok inv Some show ?thesis
    unfolding w' by (simp add: sessionInv_def refsOk_def initialWorld_def)
qed

lemma sessionInv_step: "step w w' \<Longrightarrow> sessionInv w \<Longrightarrow> sessionInv w'"
proof (induction rule: step.induct)
  case (on_authClick w)
  then show ?case by (rule sessionInv_handleAuthClick)
next
  case (on_newChat w)
  then show ?case by (rule sessionInv_handleNewChat)
next
  case (on_tabSwitch c w)
  then show ?case by (simp add: sessionInv_handleTabSwitch)
next
  case (on_artifactView w index)
  then show ?case by (simp add: sessionInv_def handleArtifactView_def refsOk_def)
next
  case (on_closeArtifact w)
  then show ?case by (rule sessionInv_closeArtifactPane)
next
  case (on_typing w s)
  then show ?case by (simp add: sessionInv_def refsOk_def)
next
  case (on_submit w)
  then show ?case by (rule sessionInv_begin)
next
  case (on_write a w m)
  then show ?case by (simp add: sessionInv_handlerWrite)
next
  case (on_settle a w outcome)
  then show ?case by (simp add: sessionInv_finish)
next
  case (on_reload w w')
  then show ?case using sessionInv_reload by blast
qed

lemma sessionInv_reachable: "reachable w \<Longrightarrow> sessionInv w"
proof (induction rule: reachable.induct)
  case reach_init
  show ?case
    by (simp add: sessionInv_def idsInv_def activeOk_def refsOk_def storedOk_def
        initialWorld_def initialState_def)
next
  case (reach_step w w')
  then show ?case using sessionInv_step by blast
qed

subsection \<open>Chat ids\<close>

text \<open>
  Claim C1, as the program has it. In every reachable world the counter is strictly
  greater than the id of every chat of the session, and those ids are pairwise
  different. Signing out empties the chat list and puts the counter back to 1, so the
  chat created by the next sign-in has the id 1 again.
\<close>

theorem chat_ids_below_counter:
  "(reachable w \<longrightarrow>
      (\<forall>c \<in> set (chats (state w)). id' c < nextChatId (state w)) \<and>
      distinct (map id' (chats (state w)))) \<and>
   (isAuthenticated (state v) \<longrightarrow>
      chats (state (handleAuthClick v)) = [] \<and>
      nextChatId (state (handleAuthClick v)) = 1 \<and>
      map id' (chats (state (handleAuthClick (handleAuthClick v)))) = [1])"
proof -
  have A: "reachable w \<longrightarrow>
      (\<forall>c \<in> set (chats (state w)). id' c < nextChatId (state w)) \<and>
      distinct (map id' (chats (state w)))"
    using sessionInv_reachable [of w] by (simp add: sessionInv_def idsInv_def)
  have out: "state (handleAuthClick v) =
      \<lparr>isAuthenticated = False, chats = [], activeChatId = None, nextChatId = 1\<rparr>"
    if "isAuthenticated (state v)"
    using that by (simp add: handleAuthClick_def closeArtifactPane_def)
  have again: "map id' (chats (state (handleAuthClick u))) = [1]"
    if "state u = \<lparr>isAuthenticated = False, chats = [], activeChatId = None, nextChatId = 1\<rparr>" for u
    using that by (simp add: handleAuthClick_def handleNewChat_def closeArtifactPane_def Let_def)
  from A out again show ?thesis by simp
qed

theorem chat_ids_below_counter_witness:
  "reachable (handleNewChat signedIn) \<and>
   map id' (chats (state (handleNewChat signedIn))) = [1, 2] \<and>
   nextChatId (state (handleNewChat signedIn)) = 3 \<and>
   isAuthenticated (state (handleNewChat signedIn)) \<and>
   chats (state (handleAuthClick (handleNewChat signedIn))) = [] \<and>
   nextChatId (state (handleAuthClick (handleNewChat signedIn))) = 1 \<and>
   map id' (chats (state (handleAuthClick (handleAuthClick (handleNewChat signedIn))))) = [1]"
proof -
  have r: "reachable (handleNewChat signedIn)"
    by (rule reach_step [OF reachable_signedIn on_newChat])
  have i: "map id' (chats (state (handleNewChat signedIn))) = [1, 2]" by code_simp
  have n: "nextChatId (state (handleNewChat signedIn)) = 3" by code_simp
  have a: "isAuthenticated (state (handleNewChat signedIn))" by code_simp
  from chat_ids_below_counter [of "handleNewChat signedIn" "handleNewChat signedIn"] r i n a
  show ?thesis by simp
qed

text \<open>
  The id 1 is issued at the first sign-in. After the sign-out the counter is 1, which is
  not greater than it, and the chat of the second sign-in has the id 1, which is not
  greater either.
\<close>

theorem chat_id_reused_after_sign_out:
  "map id' (chats (state signedIn)) = [1] \<and>
   nextChatId (state (handleAuthClick signedIn)) = 1 \<and>
   \<not> 1 < nextChatId (state (handleAuthClick signedIn)) \<and>
   map id' (chats (state (handleAuthClick (handleAuthClick signedIn)))) = [1] \<and>
   \<not> 1 < id' (hd (chats (state (handleAuthClick (handleAuthClick signedIn)))))"
  by code_simp

subsection \<open>Release of the loading flag\<close>



text \<open>
  Claim C6. The claim asks that, after a query whose handler has terminated, nothing is
  thrown past \<^verbatim>\<open>handleSearch\<close> and the session is saved in a state that can be rendered.
  The program lowers the flag and writes the apology as claimed, but its \<^verbatim>\<open>finally\<close>
  block renders before it saves, and the render throws on a source that is \<^verbatim>\<open>null\<close>.
  For the query \<^verbatim>\<open>who won\<close>, answered by one increment whose citation list holds
  \<^verbatim>\<open>null\<close>, the handler returns normally and stores that list; \<^verbatim>\<open>handleSearch\<close> then
  throws a \<^verbatim>\<open>TypeError\<close>, with the flag down, the snapshot in storage not that of the
  final state, and a final state whose rendering throws.
\<close>

theorem handleSearch_null_citation:
  "handleSearch_begin (asking ''who won'') =
     (Awaiting \<lparr>query = ''who won'', modelMessage = 1\<rparr>, snd (handleSearch_begin (asking ''who won''))) \<and>
   dispatch nullCitationEnv ''who won'' (newMessage Model []) =
     Some (None, (newMessage Model [])\<lparr>sources := Some [JNull], text' := ''word ''\<rparr>) \<and>
   handleSearch nullCitationEnv (asking ''who won'') = Some (Some typeError, unsavedWorld) \<and>
   \<not> isLoading unsavedWorld \<and>
   store unsavedWorld ! 1 = (newMessage Model [])\<lparr>sources := Some [JNull], text' := ''word ''\<rparr> \<and>
   history (hd (chats (state unsavedWorld))) = [0, 1] \<and>
   renderChatHistory_throws unsavedWorld \<and>
   localStorage unsavedWorld \<noteq> Some (encodeState (store unsavedWorld) (state unsavedWorld)) \<and>
   localStorage unsavedWorld = localStorage (snd (handleSearch_begin (asking ''who won'')))"
  by code_simp

subsection \<open>The retry of the video handler\<close>











subsection \<open>Code extraction\<close>

lemma pick_Nil [simp]: "pick langs [] = []"
  by (simp add: pick_def)

lemma joined_simps [simp]: "joined [] = []" "joined (c # cs) = c @ [NL] @ joined cs"
  by (simp_all add: joined_def)

lemma joined_empty_iff: "joined cs = [] \<longleftrightarrow> cs = []"
  by (cases cs) simp_all

lemma extractStep_cases:
  "extractStep (acc, flag) b =
     (if toLowerCase (fst b) = ''html'' then (acc\<lparr>html := html acc @ trim (snd b) @ [NL]\<rparr>, True)
      else if toLowerCase (fst b) = ''css'' then (acc\<lparr>css := css acc @ trim (snd b) @ [NL]\<rparr>, True)
      else if toLowerCase (fst b) \<in> set [''javascript'', ''js'']
        then (acc\<lparr>javascript := javascript acc @ trim (snd b) @ [NL]\<rparr>, True)
      else (acc, flag))"
  by (simp add: extractStep_def Let_def)

lemma pick_Cons:
  "pick langs (b # bs) = (if toLowerCase (fst b) \<in> set langs then trim (snd b) # pick langs bs else pick langs bs)"
  by (simp add: pick_def)

lemma foldl_extractStep:
  "foldl extractStep (acc, flag) bs =
     (\<lparr>html = html acc @ joined (pick [''html''] bs),
       css = css acc @ joined (pick [''css''] bs),
       javascript = javascript acc @ joined (pick [''javascript'', ''js''] bs)\<rparr>,
      flag \<or> pick [''html''] bs \<noteq> [] \<or> pick [''css''] bs \<noteq> [] \<or> pick [''javascript'', ''js''] bs \<noteq> [])"
proof (induction bs arbitrary: acc flag)
  case Nil
  show ?case by simp
next
  case (Cons b bs)
  show ?case
    by (simp add: extractStep_cases Cons.IH pick_Cons)
qed

lemma extractCode_eq:
  "extractCode markdown =
     (if pick [''html''] (codeBlocks markdown) = [] \<and> pick [''css''] (codeBlocks markdown) = [] \<and>
         pick [''javascript'', ''js''] (codeBlocks markdown) = [] then None
      else Some \<lparr>html = joined (pick [''html''] (codeBlocks markdown)),
                  css = joined (pick [''css''] (codeBlocks markdown)),
                  javascript = joined (pick [''javascript'', ''js''] (codeBlocks markdown))\<rparr>)"
  by (simp add: extractCode_def foldl_extractStep Let_def)

text \<open>The scanner on a well-fenced document.\<close>

lemma backquote_facts [simp]:
  "\<not> isWordChar (CHR 0x60)" "\<not> isWordChar NL" "NL \<noteq> CHR 0x60" "CHR 0x60 \<noteq> NL"
  by (simp_all add: isWordChar_def NL_def Let_def)

lemma startsWith_fence_iff:
  "startsWith s fence \<longleftrightarrow> (\<exists>r. s = CHR 0x60 # CHR 0x60 # CHR 0x60 # r)"
proof
  assume "startsWith s fence"
  then show "\<exists>r. s = CHR 0x60 # CHR 0x60 # CHR 0x60 # r"
    by (cases s; cases "tl s"; cases "tl (tl s)") (auto simp: startsWith_def fence_def)
next
  assume "\<exists>r. s = CHR 0x60 # CHR 0x60 # CHR 0x60 # r"
  then show "startsWith s fence"
    by (auto simp: startsWith_def fence_def)
qed

lemma fenceAt_only_at_fence: "\<not> startsWith s fence \<Longrightarrow> fenceAt s = None"
  by (simp add: fenceAt_def)

lemma codeBlocks_Nil [simp]: "codeBlocks [] = []"
  by (subst codeBlocks.simps) simp

lemma codeBlocks_skip: "fenceAt (c # cs) = None \<Longrightarrow> codeBlocks (c # cs) = codeBlocks cs"
  by (subst codeBlocks.simps) simp

lemma codeBlocks_match:
  "fenceAt s = Some (lang, content, n) \<Longrightarrow> codeBlocks s = (lang, content) # codeBlocks (drop n s)"
  by (subst codeBlocks.simps) (auto split: list.splits)

lemma codeBlocks_no_fence: "\<not> occurs fence s \<Longrightarrow> codeBlocks s = []"
proof (induction s)
  case Nil
  show ?case by simp
next
  case (Cons c cs)
  then show ?case
    by (simp add: codeBlocks_skip fenceAt_only_at_fence)
qed

lemma fenceAt_in_prose:
  assumes "\<not> occurs fence (c # cs)"
  shows "fenceAt (c # cs @ fence @ r) = None"
proof (cases "startsWith (c # cs @ fence @ r) fence")
  case False
  then show ?thesis by (rule fenceAt_only_at_fence)
next
  case True
  from assms have nf: "\<not> startsWith (c # cs) fence" by simp
  from True nf have "drop 3 (c # cs @ fence @ r) \<noteq> [] \<and> hd (drop 3 (c # cs @ fence @ r)) = CHR 0x60"
    by (cases cs; cases "tl cs") (auto simp: startsWith_def fence_def)
  then obtain t where "drop 3 (c # cs @ fence @ r) = CHR 0x60 # t"
    by (cases "drop 3 (c # cs @ fence @ r)") auto
  then show ?thesis
    by (simp add: fenceAt_def Let_def)
qed

lemma codeBlocks_prose:
  "\<not> occurs fence prose \<Longrightarrow> codeBlocks (prose @ fence @ r) = codeBlocks (fence @ r)"
proof (induction prose)
  case Nil
  show ?case by simp
next
  case (Cons c cs)
  from Cons.prems have "fenceAt (c # cs @ fence @ r) = None"
    by (rule fenceAt_in_prose)
  then have "codeBlocks (c # cs @ fence @ r) = codeBlocks (cs @ fence @ r)"
    by (rule codeBlocks_skip)
  moreover from Cons.prems have "\<not> occurs fence cs" by simp
  ultimately show ?case using Cons.IH by simp
qed

lemma indexOf_closing:
  "\<not> occurs fence (body @ [CHR 0x60, CHR 0x60]) \<Longrightarrow> indexOf fence (body @ fence @ r) = Some (length body)"
proof (induction body)
  case Nil
  show ?case
    by (simp add: fence_def startsWith_def)
next
  case (Cons c cs)
  from Cons.prems have a: "\<not> startsWith (c # cs @ [CHR 0x60, CHR 0x60]) fence"
    and b: "\<not> occurs fence (cs @ [CHR 0x60, CHR 0x60])"
    by simp_all
  from a have "\<not> startsWith (c # cs @ fence @ r) fence"
    by (cases cs; cases "tl cs") (auto simp: startsWith_def fence_def)
  with Cons.IH [OF b] show ?case by simp
qed

lemma fenceAt_block:
  assumes "list_all isWordChar tag" and "\<not> occurs fence (body @ [CHR 0x60, CHR 0x60])"
  shows "fenceAt (fence @ tag @ [NL] @ body @ fence @ r) =
           Some (tag, body, length (fence @ tag @ [NL] @ body @ fence))"
proof -
  from assms(1) have t: "takeWhile isWordChar (tag @ NL # body @ fence @ r) = tag"
    and d: "dropWhile isWordChar (tag @ NL # body @ fence @ r) = NL # body @ fence @ r"
    by (simp_all add: list_all_iff takeWhile_append2 dropWhile_append2)
  have s: "startsWith (fence @ tag @ [NL] @ body @ fence @ r) fence"
    by (simp add: startsWith_def)
  have r: "drop 3 (fence @ tag @ [NL] @ body @ fence @ r) = tag @ NL # body @ fence @ r"
    by (simp add: fence_def)
  from indexOf_closing [OF assms(2), of r] s r t d show ?thesis
    by (simp add: fenceAt_def Let_def fence_def)
qed

lemma codeBlocks_block:
  assumes "list_all isWordChar tag" and "\<not> occurs fence (body @ [CHR 0x60, CHR 0x60])"
  shows "codeBlocks (fence @ tag @ [NL] @ body @ fence @ r) = (tag, body) # codeBlocks r"
proof -
  have "drop (length (fence @ tag @ [NL] @ body @ fence)) (fence @ tag @ [NL] @ body @ fence @ r) = r"
    by simp
  with codeBlocks_match [OF fenceAt_block [OF assms, of r]] show ?thesis
    by (simp only:)
qed

lemma codeBlocks_document:
  "wellFenced segs post \<Longrightarrow> codeBlocks (document segs post) = blocksOf segs"
proof (induction segs)
  case Nil
  then show ?case
    by (simp add: wellFenced_def blocksOf_def codeBlocks_no_fence)
next
  case (Cons seg segs)
  obtain prose tag body where seg: "seg = (prose, tag, body)"
    by (cases seg) auto
  from Cons.prems seg have p: "\<not> occurs fence prose" and t: "list_all isWordChar tag"
    and b: "\<not> occurs fence (body @ [CHR 0x60, CHR 0x60])" and w: "wellFenced segs post"
    by (simp_all add: wellFenced_def)
  have "codeBlocks (document (seg # segs) post) =
          codeBlocks (fence @ tag @ [NL] @ body @ fence @ document segs post)"
    using codeBlocks_prose [OF p, of "tag @ [NL] @ body @ fence @ document segs post"] seg by simp
  also have "\<dots> = (tag, body) # codeBlocks (document segs post)"
    by (rule codeBlocks_block [OF t b])
  finally show ?case
    using Cons.IH [OF w] seg by (simp add: blocksOf_def)
qed

text \<open>Every block the scanner finds starts at an opening fence with its tag.\<close>

lemma fenceAt_opening:
  assumes "fenceAt s = Some (lang, content, n)"
  shows "\<exists>rest. s = fence @ lang @ [NL] @ rest"
proof -
  from assms have sw: "startsWith s fence"
    by (auto simp: fenceAt_def split: if_splits)
  then have s: "s = fence @ drop 3 s"
    unfolding startsWith_fence_iff by (auto simp: fence_def)
  from assms sw obtain body where d: "dropWhile isWordChar (drop 3 s) = NL # body"
    and l: "lang = takeWhile isWordChar (drop 3 s)"
    by (auto simp: fenceAt_def Let_def split: if_splits list.splits option.splits)
  have "drop 3 s = takeWhile isWordChar (drop 3 s) @ dropWhile isWordChar (drop 3 s)"
    by simp
  with d l have "drop 3 s = lang @ [NL] @ body" by simp
  with s have "s = fence @ lang @ [NL] @ body" by simp
  then show ?thesis ..
qed

lemma codeBlocks_opening:
  "(lang, content) \<in> set (codeBlocks s) \<Longrightarrow> \<exists>pre rest. s = pre @ fence @ lang @ [NL] @ rest"
proof (induction s rule: length_induct)
  case (1 s)
  show ?case
  proof (cases s)
    case Nil
    with "1.prems" show ?thesis by simp
  next
    case (Cons c cs)
    show ?thesis
    proof (cases "fenceAt s")
      case None
      with Cons "1.prems" have "(lang, content) \<in> set (codeBlocks cs)"
        by (simp add: codeBlocks_skip)
      with "1.IH" Cons obtain pre rest where "cs = pre @ fence @ lang @ [NL] @ rest"
        by auto
      with Cons have "s = (c # pre) @ fence @ lang @ [NL] @ rest" by simp
      then show ?thesis by blast
    next
      case (Some m)
      obtain lang' content' n where m: "m = (lang', content', n)"
        by (cases m) auto
      from Some m Cons have cb: "codeBlocks s = (lang', content') # codeBlocks (drop n s)"
        by (simp add: codeBlocks_match)
      from Some m have n: "0 < n" by (auto dest: fenceAt_pos)
      show ?thesis
      proof (cases "(lang, content) = (lang', content')")
        case True
        with Some m fenceAt_opening [of s lang content n] obtain rest where "s = [] @ fence @ lang @ [NL] @ rest"
          by auto
        then show ?thesis by blast
      next
        case False
        with cb "1.prems" have "(lang, content) \<in> set (codeBlocks (drop n s))" by auto
        moreover from n Cons have "length (drop n s) < length s" by simp
        ultimately obtain pre rest where "drop n s = pre @ fence @ lang @ [NL] @ rest"
          using "1.IH" by blast
        then have "s = (take n s @ pre) @ fence @ lang @ [NL] @ rest"
          by (metis append_take_drop_id append_assoc)
        then show ?thesis by blast
      qed
    qed
  qed
qed

lemma occurs_infix: "occurs p (pre @ p @ rest)"
proof (induction pre)
  case Nil
  have sw: "startsWith (p @ rest) p"
    by (simp add: startsWith_def)
  show ?case
  proof (cases "p @ rest")
    case Nil
    then show ?thesis by simp
  next
    case (Cons a l)
    with sw show ?thesis by simp
  qed
next
  case (Cons c cs)
  then show ?case by simp
qed

lemma toLowerCase_append: "toLowerCase (a @ b) = toLowerCase a @ toLowerCase b"
  by (simp add: toLowerCase_def)

lemma toLowerCase_fence: "toLowerCase fence = fence"
  by (simp add: toLowerCase_def toLowerChar_def fence_def Let_def)

lemma toLowerCase_NL: "toLowerCase (NL # s) = NL # toLowerCase s"
  by (simp add: toLowerCase_def toLowerChar_def NL_def Let_def)

lemma codeBlocks_opens:
  assumes "(lang, content) \<in> set (codeBlocks markdown)"
  shows "opens (toLowerCase lang) markdown"
proof -
  from codeBlocks_opening [OF assms] obtain pre rest
    where "markdown = pre @ fence @ lang @ [NL] @ rest" by blast
  then have "toLowerCase markdown =
      toLowerCase pre @ (fence @ toLowerCase lang @ [NL]) @ toLowerCase rest"
    by (simp add: toLowerCase_append toLowerCase_fence toLowerCase_NL)
  then show ?thesis
    unfolding opens_def by (simp only: occurs_infix)
qed

lemma pick_unopened:
  assumes "\<And>l. l \<in> set langs \<Longrightarrow> \<not> opens l markdown"
  shows "pick langs (codeBlocks markdown) = []"
proof -
  have "toLowerCase (fst b) \<notin> set langs" if "b \<in> set (codeBlocks markdown)" for b
  proof
    assume "toLowerCase (fst b) \<in> set langs"
    with assms have "\<not> opens (toLowerCase (fst b)) markdown" by blast
    moreover from that have "opens (toLowerCase (fst b)) markdown"
      using codeBlocks_opens [of "fst b" "snd b" markdown] by simp
    ultimately show False by contradiction
  qed
  then show ?thesis
    by (simp add: pick_def filter_empty_conv)
qed

lemma extractCode_unopened:
  assumes "\<not> opens ''html'' md" "\<not> opens ''css'' md" "\<not> opens ''javascript'' md" "\<not> opens ''js'' md"
  shows "extractCode md = None"
proof -
  have "pick [''html''] (codeBlocks md) = []"
    using assms(1) by (intro pick_unopened) simp
  moreover have "pick [''css''] (codeBlocks md) = []"
    using assms(2) by (intro pick_unopened) simp
  moreover have "pick [''javascript'', ''js''] (codeBlocks md) = []"
    using assms(3,4) by (intro pick_unopened) auto
  ultimately show ?thesis
    by (simp add: extractCode_eq)
qed

lemma extractCode_document:
  assumes "wellFenced segs post"
  shows "extractCode (document segs post) =
     (if pick [''html''] (blocksOf segs) = [] \<and> pick [''css''] (blocksOf segs) = [] \<and>
         pick [''javascript'', ''js''] (blocksOf segs) = [] then None
      else Some \<lparr>html = joined (pick [''html''] (blocksOf segs)),
                  css = joined (pick [''css''] (blocksOf segs)),
                  javascript = joined (pick [''javascript'', ''js''] (blocksOf segs))\<rparr>)"
  by (simp only: extractCode_eq codeBlocks_document [OF assms])

lemma handleCodeGeneration_stores:
  assumes "failure stream = None"
  shows "handleCodeGeneration stream m =
           (None, m\<lparr>text' := foldl appendText [] (increments stream),
                      code := extractCode (foldl appendText [] (increments stream))\<rparr>)"
  using assms by (simp add: handleCodeGeneration_def Let_def)

lemma extractCode_html_css:
  assumes "wellFenced segs post"
    and "length (pick [''html''] (blocksOf segs)) = 1"
    and "length (pick [''css''] (blocksOf segs)) = 1"
    and "pick [''javascript'', ''js''] (blocksOf segs) = []"
  shows "\<exists>e. extractCode (document segs post) = Some e \<and> html e \<noteq> [] \<and> css e \<noteq> [] \<and> javascript e = []"
proof -
  from assms(2,3) have "pick [''html''] (blocksOf segs) \<noteq> []" "pick [''css''] (blocksOf segs) \<noteq> []"
    by auto
  with assms(4) show ?thesis
    by (simp add: extractCode_document [OF assms(1)] joined_empty_iff)
qed

text \<open>
  Claim C5, amended. The input is a well-fenced document: its fences are those of its
  blocks, and every block opens with a fence, a tag of word characters and the end of the
  line. A block counts for a language when its tag, in lower case, is the language's
  name. Then: a document with one \<^verbatim>\<open>html\<close> block, one \<^verbatim>\<open>css\<close> block and no \<^verbatim>\<open>javascript\<close>
  or \<^verbatim>\<open>js\<close> block gives a code object whose \<open>html\<close> and \<open>css\<close> are not empty and whose
  \<open>javascript\<close> is empty, and the code handler, on a stream that accumulates to the
  document, stores that object in the \<open>code\<close> field of the message and the document in
  its text. Any text, well fenced or not, that nowhere has a fence directly followed by a
  recognised tag and the end of the line gives no code object, and the handler leaves the
  \<open>code\<close> field absent. On every well-fenced document each field of the code object is
  the trimmed bodies of the blocks of its language in order, a newline after each, and
  there is no code object when there is no such block. On every stream that does not
  fail the handler stores the accumulated text and the result of \<^verbatim>\<open>extractCode\<close> on it.
\<close>

theorem extractCode_blocks:
  "(wellFenced segs post \<and> length (pick [''html''] (blocksOf segs)) = 1 \<and>
    length (pick [''css''] (blocksOf segs)) = 1 \<and> pick [''javascript'', ''js''] (blocksOf segs) = [] \<longrightarrow>
      (\<exists>e. extractCode (document segs post) = Some e \<and>
           html e \<noteq> [] \<and> css e \<noteq> [] \<and> javascript e = [] \<and>
           (failure stream = None \<and> foldl appendText [] (increments stream) = document segs post \<longrightarrow>
              handleCodeGeneration stream m =
                (None, m\<lparr>text' := document segs post, code := Some e\<rparr>)))) \<and>
   (\<not> opens ''html'' md \<and> \<not> opens ''css'' md \<and> \<not> opens ''javascript'' md \<and> \<not> opens ''js'' md \<longrightarrow>
      extractCode md = None \<and>
      (failure stream1 = None \<and> foldl appendText [] (increments stream1) = md \<longrightarrow>
         handleCodeGeneration stream1 m1 = (None, m1\<lparr>text' := md, code := None\<rparr>))) \<and>
   (wellFenced segs2 post2 \<longrightarrow>
      extractCode (document segs2 post2) =
        (if pick [''html''] (blocksOf segs2) = [] \<and> pick [''css''] (blocksOf segs2) = [] \<and>
            pick [''javascript'', ''js''] (blocksOf segs2) = [] then None
         else Some \<lparr>html = joined (pick [''html''] (blocksOf segs2)),
                     css = joined (pick [''css''] (blocksOf segs2)),
                     javascript = joined (pick [''javascript'', ''js''] (blocksOf segs2))\<rparr>)) \<and>
   (failure stream3 = None \<longrightarrow>
      handleCodeGeneration stream3 m3 =
        (None, m3\<lparr>text' := foldl appendText [] (increments stream3),
                    code := extractCode (foldl appendText [] (increments stream3))\<rparr>))"
proof -
  have A: "\<exists>e. extractCode (document segs post) = Some e \<and>
           html e \<noteq> [] \<and> css e \<noteq> [] \<and> javascript e = [] \<and>
           (failure stream = None \<and> foldl appendText [] (increments stream) = document segs post \<longrightarrow>
              handleCodeGeneration stream m =
                (None, m\<lparr>text' := document segs post, code := Some e\<rparr>))"
    if h: "wellFenced segs post" "length (pick [''html''] (blocksOf segs)) = 1"
      "length (pick [''css''] (blocksOf segs)) = 1" "pick [''javascript'', ''js''] (blocksOf segs) = []"
  proof -
    from extractCode_html_css [OF h] obtain e where e: "extractCode (document segs post) = Some e"
      and ne: "html e \<noteq> []" "css e \<noteq> []" "javascript e = []"
      by blast
    have "handleCodeGeneration stream m = (None, m\<lparr>text' := document segs post, code := Some e\<rparr>)"
      if "failure stream = None" "foldl appendText [] (increments stream) = document segs post"
      using handleCodeGeneration_stores [OF that(1), of m] that(2) e by simp
    with e ne show ?thesis by (intro exI [of _ e]) simp
  qed
  have B: "extractCode md = None \<and>
      (failure stream1 = None \<and> foldl appendText [] (increments stream1) = md \<longrightarrow>
         handleCodeGeneration stream1 m1 = (None, m1\<lparr>text' := md, code := None\<rparr>))"
    if h: "\<not> opens ''html'' md" "\<not> opens ''css'' md" "\<not> opens ''javascript'' md" "\<not> opens ''js'' md"
  proof -
    note none = extractCode_unopened [OF h]
    have "handleCodeGeneration stream1 m1 = (None, m1\<lparr>text' := md, code := None\<rparr>)"
      if "failure stream1 = None" "foldl appendText [] (increments stream1) = md"
      using handleCodeGeneration_stores [OF that(1), of m1] that(2) none by simp
    with none show ?thesis by blast
  qed
  note C = extractCode_document [of segs2 post2]
  note D = handleCodeGeneration_stores [of stream3 m3]
  from A B C D show ?thesis by blast
qed

theorem extractCode_blocks_witness:
  "wellFenced twoBlocks [NL] \<and>
   pick [''html''] (blocksOf twoBlocks) = [''<p>hi</p>''] \<and>
   pick [''css''] (blocksOf twoBlocks) = [''p { color: red }''] \<and>
   pick [''javascript'', ''js''] (blocksOf twoBlocks) = [] \<and>
   failure (streamOf [take 20 (document twoBlocks [NL]), [], drop 20 (document twoBlocks [NL])]) = None \<and>
   foldl appendText []
     (increments (streamOf [take 20 (document twoBlocks [NL]), [], drop 20 (document twoBlocks [NL])])) =
     document twoBlocks [NL] \<and>
   extractCode (document twoBlocks [NL]) =
     Some \<lparr>html = ''<p>hi</p>'' @ [NL], css = ''p { color: red }'' @ [NL], javascript = []\<rparr> \<and>
   handleCodeGeneration
       (streamOf [take 20 (document twoBlocks [NL]), [], drop 20 (document twoBlocks [NL])])
       (newMessage Model []) =
     (None, (newMessage Model [])
              \<lparr>text' := document twoBlocks [NL],
               code := Some \<lparr>html = ''<p>hi</p>'' @ [NL], css = ''p { color: red }'' @ [NL],
                             javascript = []\<rparr>\<rparr>) \<and>
   \<not> opens ''html'' (document pythonOnly []) \<and> \<not> opens ''css'' (document pythonOnly []) \<and>
   \<not> opens ''javascript'' (document pythonOnly []) \<and> \<not> opens ''js'' (document pythonOnly []) \<and>
   failure (streamOf [document pythonOnly []]) = None \<and>
   foldl appendText [] (increments (streamOf [document pythonOnly []])) = document pythonOnly [] \<and>
   extractCode (document pythonOnly []) = None \<and>
   handleCodeGeneration (streamOf [document pythonOnly []]) (newMessage Model []) =
     (None, (newMessage Model [])\<lparr>text' := document pythonOnly [], code := None\<rparr>) \<and>
   wellFenced twoScripts [] \<and>
   extractCode (document twoScripts []) =
     Some \<lparr>html = [], css = [], javascript = ''let a = 1;'' @ [NL] @ ''a++;'' @ [NL]\<rparr>"
proof -
  let ?d = "document twoBlocks [NL]"
  let ?s = "streamOf [take 20 ?d, [], drop 20 ?d]"
  let ?p = "document pythonOnly []"
  let ?e = "\<lparr>html = ''<p>hi</p>'' @ [NL], css = ''p { color: red }'' @ [NL], javascript = []\<rparr>"
  have w: "wellFenced twoBlocks [NL]" by code_simp
  have h: "pick [''html''] (blocksOf twoBlocks) = [''<p>hi</p>'']" by code_simp
  have c: "pick [''css''] (blocksOf twoBlocks) = [''p { color: red }'']" by code_simp
  have j: "pick [''javascript'', ''js''] (blocksOf twoBlocks) = []" by code_simp
  have f: "failure ?s = None" by code_simp
  have t: "foldl appendText [] (increments ?s) = ?d" by code_simp
  have x: "extractCode ?d = Some ?e" by code_simp
  have o1: "\<not> opens ''html'' ?p" by code_simp
  have o2: "\<not> opens ''css'' ?p" by code_simp
  have o3: "\<not> opens ''javascript'' ?p" by code_simp
  have o4: "\<not> opens ''js'' ?p" by code_simp
  have f1: "failure (streamOf [?p]) = None" by code_simp
  have t1: "foldl appendText [] (increments (streamOf [?p])) = ?p" by code_simp
  have w2: "wellFenced twoScripts []" by code_simp
  have p1: "pick [''html''] (blocksOf twoScripts) = []" by code_simp
  have p2: "pick [''css''] (blocksOf twoScripts) = []" by code_simp
  have p3: "joined (pick [''javascript'', ''js''] (blocksOf twoScripts)) = ''let a = 1;'' @ [NL] @ ''a++;'' @ [NL]"
    by code_simp
  have p4: "pick [''javascript'', ''js''] (blocksOf twoScripts) \<noteq> []" by code_simp
  note inst = extractCode_blocks [of twoBlocks "[NL]" ?s "newMessage Model []" ?p "streamOf [?p]"
      "newMessage Model []" twoScripts "[]" ?s "newMessage Model []"]
  from inst w h c j f t x
  have a: "handleCodeGeneration ?s (newMessage Model []) =
             (None, (newMessage Model [])\<lparr>text' := ?d, code := Some ?e\<rparr>)"
    by auto
  from inst o1 o2 o3 o4 f1 t1
  have b: "extractCode ?p = None \<and>
           handleCodeGeneration (streamOf [?p]) (newMessage Model []) =
             (None, (newMessage Model [])\<lparr>text' := ?p, code := None\<rparr>)"
    by blast
  from inst w2 p1 p2 p3 p4
  have d: "extractCode (document twoScripts []) =
     Some \<lparr>html = [], css = [], javascript = ''let a = 1;'' @ [NL] @ ''a++;'' @ [NL]\<rparr>"
    by simp
  from w h c j f t x a o1 o2 o3 o4 f1 t1 b w2 d show ?thesis
    by blast
qed

text \<open>
  The claim as it stands also covers a text such as the following, whose first block has
  the tag \<^verbatim>\<open>c++\<close>: a reader finds one \<^verbatim>\<open>html\<close> block and one \<^verbatim>\<open>css\<close> block after it and
  no script. The pattern of \<^verbatim>\<open>extractCode\<close> asks for word characters between the fence
  and the end of the line, so it does not match at the first fence; it matches from the
  closing fence of each block to the opening fence of the next, with an empty tag, and
  there is no code object.
\<close>

theorem extractCode_after_unmatched_tag:
  "document cppFirst [NL] =
     fence @ ''c++'' @ [NL] @ ''int x;'' @ [NL] @ fence @ [NL] @
     fence @ ''html'' @ [NL] @ ''<p>hi</p>'' @ [NL] @ fence @ [NL] @
     fence @ ''css'' @ [NL] @ ''p { color: red }'' @ [NL] @ fence @ [NL] \<and>
   pick [''html''] (blocksOf cppFirst) = [''<p>hi</p>''] \<and>
   pick [''css''] (blocksOf cppFirst) = [''p { color: red }''] \<and>
   pick [''javascript'', ''js''] (blocksOf cppFirst) = [] \<and>
   codeBlocks (document cppFirst [NL]) = [([], []), ([], [])] \<and>
   extractCode (document cppFirst [NL]) = None \<and>
   handleCodeGeneration (streamOf [document cppFirst [NL]]) (newMessage Model []) =
     (None, (newMessage Model [])\<lparr>text' := document cppFirst [NL], code := None\<rparr>)"
  by code_simp

subsection \<open>Citations of the text search\<close>

lemma lastCitations_Nil [simp]: "lastCitations [] = None"
  by (simp add: lastCitations_def)

lemma lastCitations_snoc:
  "lastCitations (chunks @ [chunk]) =
     (case groundingOf chunk of
        None \<Rightarrow> lastCitations chunks
      | Some gs \<Rightarrow> if length gs > 0 then Some gs else lastCitations chunks)"
  by (simp add: lastCitations_def citations_def Let_def split: option.splits)

lemma foldl_textStep:
  "foldl textStep (t, m) chunks =
     (foldl appendText t chunks,
      (case lastCitations chunks of None \<Rightarrow> m | Some gs \<Rightarrow> m\<lparr>sources := Some gs\<rparr>))"
proof (induction chunks rule: rev_induct)
  case Nil
  show ?case by simp
next
  case (snoc chunk chunks)
  then show ?case
    by (simp add: textStep_def lastCitations_snoc split: option.splits)
qed

text \<open>
  Claim C9. In the loop of \<^verbatim>\<open>handleTextSearch\<close>, an increment that carries a non-empty
  citation list sets the sources of the message to exactly that list; an increment whose
  list is absent or empty leaves the message as it is. So after the stream the sources
  are the last non-empty list that arrived, neither merged with earlier ones nor
  deduplicated, and the sources the message had when no such list arrived.
\<close>

theorem text_search_sources:
  "(groundingOf chunk = Some gs \<and> gs \<noteq> [] \<longrightarrow> sources (snd (textStep (t, m) chunk)) = Some gs) \<and>
   (groundingOf chunk' = None \<or> groundingOf chunk' = Some [] \<longrightarrow> snd (textStep (t, m) chunk') = m) \<and>
   sources (snd (handleTextSearch stream m)) =
     (case lastCitations (increments stream) of None \<Rightarrow> sources m | Some cs \<Rightarrow> Some cs)"
proof -
  have A: "groundingOf chunk = Some gs \<and> gs \<noteq> [] \<longrightarrow> sources (snd (textStep (t, m) chunk)) = Some gs"
    by (simp add: textStep_def)
  have B: "groundingOf chunk' = None \<or> groundingOf chunk' = Some [] \<longrightarrow> snd (textStep (t, m) chunk') = m"
    by (auto simp: textStep_def)
  have C: "sources (snd (handleTextSearch stream m)) =
     (case lastCitations (increments stream) of None \<Rightarrow> sources m | Some cs \<Rightarrow> Some cs)"
    by (simp add: handleTextSearch_def foldl_textStep Let_def split: option.splits)
  from A B C show ?thesis by blast
qed

theorem text_search_sources_witness:
  "groundingOf (cited [JStr ''a'', JStr ''b'']) = Some [JStr ''a'', JStr ''b''] \<and>
   sources (snd (textStep ([], newMessage Model []) (cited [JStr ''a'', JStr ''b'']))) =
     Some [JStr ''a'', JStr ''b''] \<and>
   groundingOf uncited = None \<and> groundingOf (cited []) = Some [] \<and>
   snd (textStep ([], (newMessage Model [])\<lparr>sources := Some [JStr ''a'']\<rparr>) uncited) =
     (newMessage Model [])\<lparr>sources := Some [JStr ''a'']\<rparr> \<and>
   snd (textStep ([], (newMessage Model [])\<lparr>sources := Some [JStr ''a'']\<rparr>) (cited [])) =
     (newMessage Model [])\<lparr>sources := Some [JStr ''a'']\<rparr> \<and>
   sources (snd (handleTextSearch
       \<lparr>increments = [cited [JStr ''a'', JStr ''b''], uncited, cited [JStr ''a''], cited []],
        failure = None\<rparr> (newMessage Model []))) = Some [JStr ''a'']"
proof -
  let ?m = "(newMessage Model [])\<lparr>sources := Some [JStr ''a'']\<rparr>"
  let ?s = "\<lparr>increments = [cited [JStr ''a'', JStr ''b''], uncited, cited [JStr ''a''], cited []],
        failure = None\<rparr>"
  have a: "groundingOf (cited [JStr ''a'', JStr ''b'']) = Some [JStr ''a'', JStr ''b'']" by code_simp
  have b: "groundingOf uncited = None" by code_simp
  have c: "groundingOf (cited []) = Some []" by code_simp
  have d: "lastCitations (increments ?s) = Some [JStr ''a'']" by code_simp
  from text_search_sources [of "cited [JStr ''a'', JStr ''b'']" "[JStr ''a'', JStr ''b'']" "[]"
      "newMessage Model []" uncited ?s]
    text_search_sources [of "cited [JStr ''a'', JStr ''b'']" "[JStr ''a'', JStr ''b'']" "[]" ?m uncited ?s]
    text_search_sources [of "cited [JStr ''a'', JStr ''b'']" "[JStr ''a'', JStr ''b'']" "[]" ?m "cited []" ?s]
    a b c d
  show ?thesis by simp
qed

subsection \<open>The markdown renderer\<close>

lemma listItems_simps [simp]:
  "listItems [] = []"
  "listItems (l # ls) = ''<li>'' @ drop 2 (trim l) @ ''</li>'' @ listItems ls"
  by (simp_all add: listItems_def)

lemma linesLoop_groupLines:
  "closeList (linesLoop ls (False, h)) = h @ groupLines ls"
  "closeList (linesLoop ls (True, h)) =
     h @ listItems (takeWhile isListLine ls) @ ''</ul>'' @ groupLines (dropWhile isListLine ls)"
proof (induction ls arbitrary: h)
  case Nil
  {
    case 1
    show ?case by (simp add: closeList_def)
  next
    case 2
    show ?case by (simp add: closeList_def)
  }
next
  case (Cons l ls)
  {
    case 1
    show ?case by (simp add: Cons.IH)
  next
    case 2
    show ?case by (simp add: Cons.IH)
  }
qed

lemma renderSection_groupLines: "renderSection part = groupLines (nonBlankLines part)"
  using linesLoop_groupLines(1) [of "nonBlankLines part" "[]"]
  by (simp add: renderSection_def nonBlankLines_def closeList_def Let_def)

lemma indexOf_None_Cons:
  "indexOf p (c # cs) = None \<Longrightarrow> \<not> startsWith (c # cs) p \<and> indexOf p cs = None"
  by (auto split: if_splits option.splits)

lemma replaceFences_plain: "indexOf fence s = None \<Longrightarrow> replaceFences s = s"
proof (induction s)
  case Nil
  show ?case by (simp add: replaceFences.simps)
next
  case (Cons c cs)
  from indexOf_None_Cons [OF Cons.prems] Cons.IH
  show ?case
    by (subst replaceFences.simps) (simp add: fenceAt_def)
qed

lemma replaceBold_plain: "indexOf ''**'' s = None \<Longrightarrow> replaceBold s = s"
proof (induction s)
  case Nil
  show ?case by (simp add: replaceBold.simps)
next
  case (Cons c cs)
  from indexOf_None_Cons [OF Cons.prems] Cons.IH
  show ?case
    by (subst replaceBold.simps) (simp add: boldAt_def)
qed

lemma splitPre_plain: "indexOf ''<pre>'' s = None \<Longrightarrow> splitPre acc s = [acc @ s]"
proof (induction s arbitrary: acc)
  case Nil
  show ?case by (simp add: splitPre.simps)
next
  case (Cons c cs)
  from indexOf_None_Cons [OF Cons.prems] Cons.IH [of "acc @ [c]"]
  show ?case
    by (subst splitPre.simps) (simp add: preAt_def)
qed

lemma indexOf_None_startsWith: "indexOf p s = None \<Longrightarrow> p \<noteq> [] \<Longrightarrow> \<not> startsWith s p"
  by (cases s) (auto simp: startsWith_def split: if_splits)

lemma simpleMarkdownToHtml_plain:
  assumes "indexOf fence md = None" "indexOf ''**'' md = None" "indexOf ''<pre>'' md = None"
  shows "simpleMarkdownToHtml md = groupLines (nonBlankLines md)"
  using assms indexOf_None_startsWith [of "''<pre>''" md]
  by (simp add: simpleMarkdownToHtml_def replaceFences_plain replaceBold_plain splitPre_plain
      renderSection_groupLines)

text \<open>
  Claim C7, as the program has it. The sample input gives one paragraph holding the
  \<^verbatim>\<open>strong\<close> element and then one list of two items. In general the part of a text
  outside the code blocks is rendered line by line: the lines that are blank after
  trimming are dropped; a maximal run of lines whose trimmed text starts with the marker
  is one list, each item the trimmed line without the marker; every other line is its
  own paragraph (\<open>groupLines\<close>). For a text with no fence, no bold marker and no
  \<^verbatim>\<open><pre>\<close> that is the whole output.
\<close>

theorem markdown_lines:
  "simpleMarkdownToHtml sampleMarkdown =
     ''<p><strong>bold</strong> </p><ul><li>item1</li><li>item2</li></ul>'' \<and>
   renderSection part = groupLines (nonBlankLines part) \<and>
   (indexOf fence md = None \<and> indexOf ''**'' md = None \<and> indexOf ''<pre>'' md = None \<longrightarrow>
      simpleMarkdownToHtml md = groupLines (nonBlankLines md))"
proof -
  have "simpleMarkdownToHtml sampleMarkdown =
     ''<p><strong>bold</strong> </p><ul><li>item1</li><li>item2</li></ul>''"
    by code_simp
  with renderSection_groupLines [of part] simpleMarkdownToHtml_plain [of md]
  show ?thesis by blast
qed

theorem markdown_lines_witness:
  "indexOf fence indentedList = None \<and> indexOf ''**'' indentedList = None \<and>
   indexOf ''<pre>'' indentedList = None \<and>
   nonBlankLines indentedList = [''intro'', ''  * a'', ''* b'', ''end''] \<and>
   simpleMarkdownToHtml indentedList = ''<p>intro</p><ul><li>a</li><li>b</li></ul><p>end</p>'' \<and>
   renderSection indentedList = ''<p>intro</p><ul><li>a</li><li>b</li></ul><p>end</p>''"
proof -
  have a: "indexOf fence indentedList = None \<and> indexOf ''**'' indentedList = None \<and>
     indexOf ''<pre>'' indentedList = None" by code_simp
  have b: "nonBlankLines indentedList = [''intro'', ''  * a'', ''* b'', ''end'']" by code_simp
  have c: "groupLines [''intro'', ''  * a'', ''* b'', ''end''] =
     ''<p>intro</p><ul><li>a</li><li>b</li></ul><p>end</p>''" by code_simp
  from markdown_lines [of indentedList indentedList] a b c show ?thesis by simp
qed

text \<open>
  The marker is looked for in the trimmed line. An indented line does not start with the
  marker and yet is a list item, not a paragraph; a line made of the marker and one more
  space starts with the marker and yet is a paragraph, not a list.
\<close>

theorem markdown_list_marker_after_trim:
  "\<not> startsWith ''  * x'' ''* '' \<and> trim ''  * x'' \<noteq> [] \<and>
   simpleMarkdownToHtml ''  * x'' = ''<ul><li>x</li></ul>'' \<and>
   startsWith ''*  '' ''* '' \<and> trim ''*  '' \<noteq> [] \<and>
   simpleMarkdownToHtml ''*  '' = ''<p>*  </p>''"
  by code_simp

end
